theory Spec2Isabelle
  imports Complex_Main "HOL-Library.Word"
begin

section \<open>Strings and errors\<close>

text \<open>
  A JavaScript string is a sequence of UTF-16 code units. The greetings the remote model
  returns are Hebrew, so the model keeps code units as numbers rather than 8-bit
  characters. \<open>ascii\<close> writes an ASCII literal as such a string.
\<close>

type_synonym jsstring = "nat list"

definition ascii :: "string \<Rightarrow> jsstring" where
  "ascii cs = map of_char cs"

datatype js_error =
    Error jsstring
  | RangeError
  | NotSupportedError

section \<open>Audio helper functions (src/App.tsx, lines 15-43)\<close>

type_synonym byte = "8 word"

text \<open>
  \<open>decode\<close>: the argument is the binary string that \<open>atob\<close> returns; the loop stores
  \<open>charCodeAt i\<close> into a \<open>Uint8Array\<close>, which keeps the value modulo 256.
\<close>

definition decode :: "jsstring \<Rightarrow> byte list" where
  "decode binaryString = map of_nat binaryString"

text \<open>
  \<open>new Int16Array(data.buffer)\<close> views the bytes as 16-bit signed integers and throws a
  \<open>RangeError\<close> when the byte length is not a multiple of 2. The array that \<open>decode\<close>
  makes owns its whole buffer, so \<open>data.buffer\<close> holds exactly the bytes of \<open>data\<close>. A
  typed array reads in the byte order of the platform; the model reads the low byte first,
  as the platforms that browsers run on do.
\<close>

definition int16_at :: "byte list \<Rightarrow> nat \<Rightarrow> 16 word" where
  "int16_at data i = word_cat (data ! (2 * i + 1)) (data ! (2 * i))"

definition Int16Array :: "byte list \<Rightarrow> js_error + 16 word list" where
  "Int16Array data =
     (if odd (length data) then Inl RangeError
      else Inr (map (int16_at data) [0..<length data div 2]))"

record AudioBuffer =
  sampleRate :: nat
  channels :: "real list list"

text \<open>
  \<open>ctx.createBuffer\<close> is the platform's: it gives \<open>numChannels\<close> channels of
  \<open>frameCount\<close> zero samples, and refuses a zero channel count or a zero length with a
  \<open>NotSupportedError\<close>.
\<close>

definition createBuffer :: "nat \<Rightarrow> nat \<Rightarrow> nat \<Rightarrow> js_error + AudioBuffer" where
  "createBuffer numChannels frameCount rate =
     (if numChannels = 0 \<or> frameCount = 0 then Inl NotSupportedError
      else Inr \<lparr>sampleRate = rate, channels = replicate numChannels (replicate frameCount 0)\<rparr>)"

text \<open>The inner loop of \<open>decodeAudioData\<close>: one write \<open>channelData[i] = ...\<close> per frame.\<close>

fun fill_channel :: "16 word list \<Rightarrow> nat \<Rightarrow> nat \<Rightarrow> nat list \<Rightarrow> real list \<Rightarrow> real list" where
  "fill_channel dataInt16 numChannels channel [] channelData = channelData"
| "fill_channel dataInt16 numChannels channel (i # is) channelData =
     fill_channel dataInt16 numChannels channel is
       (channelData[i := real_of_int (sint (dataInt16 ! (i * numChannels + channel))) / 32768])"

text \<open>The outer loop: one pass of the inner loop per channel.\<close>

fun fill_channels :: "16 word list \<Rightarrow> nat \<Rightarrow> nat \<Rightarrow> nat list \<Rightarrow> real list list \<Rightarrow> real list list" where
  "fill_channels dataInt16 numChannels frameCount [] chans = chans"
| "fill_channels dataInt16 numChannels frameCount (channel # cs) chans =
     fill_channels dataInt16 numChannels frameCount cs
       (chans[channel := fill_channel dataInt16 numChannels channel [0..<frameCount] (chans ! channel)])"

definition decodeAudioData :: "byte list \<Rightarrow> nat \<Rightarrow> nat \<Rightarrow> js_error + AudioBuffer" where
  "decodeAudioData data rate numChannels =
     (case Int16Array data of
        Inl e \<Rightarrow> Inl e
      | Inr dataInt16 \<Rightarrow>
          (let frameCount = length dataInt16 div numChannels in
           case createBuffer numChannels frameCount rate of
             Inl e \<Rightarrow> Inl e
           | Inr buffer \<Rightarrow>
               Inr (buffer\<lparr>channels :=
                      fill_channels dataInt16 numChannels frameCount [0..<numChannels]
                        (channels buffer)\<rparr>)))"

section \<open>The remote client module (src/services/geminiService)\<close>

record client =
  apiKey :: jsstring

text \<open>
  Loading the module: \<open>process.env.API_KEY\<close> is either undefined or a string, and the
  guard \<open>!process.env.API_KEY\<close> rejects both undefined and the empty string.
\<close>

definition load_geminiService :: "jsstring option \<Rightarrow> js_error + client" where
  "load_geminiService env_API_KEY =
     (case env_API_KEY of
        None \<Rightarrow> Inl (Error (ascii ''API_KEY environment variable is not set''))
      | Some k \<Rightarrow>
          if k = [] then Inl (Error (ascii ''API_KEY environment variable is not set''))
          else Inr \<lparr>apiKey = k\<rparr>)"

text \<open>
  \<open>String.prototype.trim\<close> removes the white space and line terminator code units of
  ECMAScript from both ends.
\<close>

definition is_js_whitespace :: "nat \<Rightarrow> bool" where
  "is_js_whitespace c \<longleftrightarrow>
     c \<in> {9, 10, 11, 12, 13, 32, 160, 5760, 8232, 8233, 8239, 8287, 12288, 65279}
     \<or> (8192 \<le> c \<and> c \<le> 8202)"

definition js_trim :: "jsstring \<Rightarrow> jsstring" where
  "js_trim s = rev (dropWhile is_js_whitespace (rev (dropWhile is_js_whitespace s)))"

text \<open>What the remote model call gives back to \<open>analyzeFrame\<close>.\<close>

datatype api_response =
    ApiText jsstring            \<comment> \<open>\<open>response.text\<close>\<close>
  | ApiFailure "jsstring option" \<comment> \<open>a thrown value: the message of an \<open>Error\<close>, or something else\<close>

definition analyzeFrame :: "client \<Rightarrow> api_response \<Rightarrow> jsstring + jsstring" where
  "analyzeFrame ai response =
     (case response of
        ApiText t \<Rightarrow> Inr (js_trim t)
      | ApiFailure (Some message) \<Rightarrow> Inl message
      | ApiFailure None \<Rightarrow> Inl (ascii ''An unknown error occurred during analysis.''))"

text \<open>
  What the speech call gives back to \<open>textToSpeech\<close>. A non-empty base64 payload is
  represented by what \<open>atob\<close> makes of it: the binary string, or \<open>None\<close> when \<open>atob\<close>
  rejects it.
\<close>

datatype tts_response =
    TtsAudio "jsstring option"
  | TtsNoAudio
  | TtsFailure

definition textToSpeech :: "client \<Rightarrow> tts_response \<Rightarrow> unit + jsstring option" where
  "textToSpeech ai response =
     (case response of
        TtsAudio base64Audio \<Rightarrow> Inr base64Audio
      | TtsNoAudio \<Rightarrow> Inl ()
      | TtsFailure \<Rightarrow> Inl ())"

section \<open>Sentinel test of \<open>runAnalysis\<close> (src/App.tsx, line 118)\<close>

text \<open>
  \<open>toUpperCase\<close> maps code point by code point. On ASCII it maps \<open>a..z\<close> to \<open>A..Z\<close> and
  fixes everything else; beyond ASCII it follows the Unicode case tables, which are not
  part of this repository and are taken as the parameter \<open>tab\<close> (code point to code
  points).
\<close>

fun code_points :: "jsstring \<Rightarrow> nat list" where
  "code_points (h # l # r) =
     (if 55296 \<le> h \<and> h < 56320 \<and> 56320 \<le> l \<and> l < 57344
      then (65536 + (h - 55296) * 1024 + (l - 56320)) # code_points r
      else h # code_points (l # r))"
| "code_points [h] = [h]"
| "code_points [] = []"

definition code_units :: "nat \<Rightarrow> jsstring" where
  "code_units cp =
     (if cp < 65536 then [cp]
      else [55296 + (cp - 65536) div 1024, 56320 + (cp - 65536) mod 1024])"

definition upper_cp :: "(nat \<Rightarrow> nat list) \<Rightarrow> nat \<Rightarrow> nat list" where
  "upper_cp tab cp =
     (if 97 \<le> cp \<and> cp \<le> 122 then [cp - 32]
      else if cp < 128 then [cp]
      else tab cp)"

definition toUpperCase :: "(nat \<Rightarrow> nat list) \<Rightarrow> jsstring \<Rightarrow> jsstring" where
  "toUpperCase tab s = concat (map code_units (concat (map (upper_cp tab) (code_points s))))"

datatype detection = Detected jsstring | NoPerson

definition classify :: "(nat \<Rightarrow> nat list) \<Rightarrow> jsstring \<Rightarrow> detection" where
  "classify tab result =
     (if result \<noteq> [] \<and> toUpperCase tab result \<noteq> ascii ''NOPERS''
      then Detected result else NoPerson)"

section \<open>The component \<open>App\<close> (src/App.tsx, lines 46-207)\<close>

definition COOLDOWN_DURATION_MS :: nat where
  "COOLDOWN_DURATION_MS = 20000"

definition DEFAULT_ANALYSIS_INTERVAL_MS :: nat where
  "DEFAULT_ANALYSIS_INTERVAL_MS = 10000"

text \<open>
  The texts shown to the user are fixed Hebrew sentences; the model names them. Only the
  greeting and the error message of a failed analysis carry data.
\<close>

datatype status =
    StartCameraMsg      \<comment> \<open>initial text, set again by \<open>stopCamera\<close>\<close>
  | CameraOnMsg         \<comment> \<open>camera started, waiting for a detection\<close>
  | ResultMsg jsstring  \<comment> \<open>\<open>setAnalysisResult(result)\<close>\<close>
  | CooldownMsg         \<comment> \<open>person detected, analysis paused for 20 seconds\<close>
  | ReadyMsg            \<comment> \<open>ready for analysis\<close>
  | NoPersonMsg         \<comment> \<open>no person detected\<close>

datatype ui_error =
    AnalysisFailedMsg jsstring
  | PlaybackFailedMsg
  | CameraFailedMsg

text \<open>
  The interval created by \<open>window.setInterval(runAnalysis, analysisInterval)\<close>: when it
  is due next, its period, and the values of \<open>isLoading\<close>, \<open>isSpeaking\<close> and
  \<open>isOnCooldown\<close> that the \<open>runAnalysis\<close> closure handed to it has captured.
\<close>

record interval_timer =
  due :: nat
  period :: nat
  seen_isLoading :: bool
  seen_isSpeaking :: bool
  seen_isOnCooldown :: bool

text \<open>A call of \<open>runAnalysis\<close> that is suspended at one of its \<open>await\<close>s.\<close>

datatype cycle =
    AwaitAnalysis bool    \<comment> \<open>at \<open>await analyzeFrame\<close>; the closure's \<open>isOnCooldown\<close>\<close>
  | AwaitSpeech jsstring  \<comment> \<open>at \<open>await textToSpeech(result)\<close>\<close>
  | AwaitPlayback         \<comment> \<open>inside \<open>playAudio\<close>, at the wait for \<open>onended\<close>\<close>

text \<open>
  The state: the \<open>useState\<close> and \<open>useRef\<close> cells of the component, and what the
  browser holds for it: the clock (milliseconds since mount), the suspended calls of
  \<open>runAnalysis\<close>, the due times of the pending \<open>setTimeout\<close>s of the cooldown, the
  number of pending \<open>getUserMedia\<close> calls, and the number of frames drawn so far.
\<close>

record app_state =
  isCameraOn :: bool
  isLoading :: bool
  isSpeaking :: bool
  isOnCooldown :: bool
  analysisResult :: status
  error :: "ui_error option"
  stream :: bool
  analysisInterval :: nat
  analysisIntervalRef :: "interval_timer option"
  streamRef :: bool
  audioContextRef :: bool
  now :: nat
  cycles :: "cycle list"
  cooldownTimeouts :: "nat list"
  pendingCamera :: nat
  frames :: nat

definition initial_state :: app_state where
  "initial_state =
     \<lparr>isCameraOn = False, isLoading = False, isSpeaking = False, isOnCooldown = False,
      analysisResult = StartCameraMsg, error = None, stream = False,
      analysisInterval = DEFAULT_ANALYSIS_INTERVAL_MS, analysisIntervalRef = None,
      streamRef = False, audioContextRef = False, now = 0, cycles = [],
      cooldownTimeouts = [], pendingCamera = 0, frames = 0\<rparr>"

definition drop_nth :: "nat \<Rightarrow> 'a list \<Rightarrow> 'a list" where
  "drop_nth k xs = take k xs @ drop (Suc k) xs"

subsection \<open>Rendering: the interval effect (lines 187-201)\<close>

text \<open>
  After every handler the component renders again and its effects run before the next
  event is handled. The interval effect depends on \<open>isCameraOn\<close>, \<open>runAnalysis\<close> and
  \<open>analysisInterval\<close>; \<open>useCallback\<close> makes a new \<open>runAnalysis\<close> exactly when
  \<open>isLoading\<close>, \<open>isSpeaking\<close> or \<open>isOnCooldown\<close> has changed. When a dependency has
  changed, the cleanup clears the old interval and the effect body runs.
\<close>

definition interval_effect_deps :: "app_state \<Rightarrow> bool \<times> (bool \<times> bool \<times> bool) \<times> nat" where
  "interval_effect_deps s =
     (isCameraOn s, (isLoading s, isSpeaking s, isOnCooldown s), analysisInterval s)"

definition interval_effect :: "app_state \<Rightarrow> app_state" where
  "interval_effect s =
     (if isCameraOn s
      then s\<lparr>analysisIntervalRef :=
               Some \<lparr>due = now s + analysisInterval s, period = analysisInterval s,
                     seen_isLoading = isLoading s, seen_isSpeaking = isSpeaking s,
                     seen_isOnCooldown = isOnCooldown s\<rparr>\<rparr>
      else s\<lparr>analysisIntervalRef := None\<rparr>)"

definition rerender :: "app_state \<Rightarrow> app_state \<Rightarrow> app_state" where
  "rerender prev s =
     (if interval_effect_deps s = interval_effect_deps prev then s
      else interval_effect s)"

subsection \<open>Camera on and off (lines 62-74 and 153-178)\<close>

definition stopCamera :: "app_state \<Rightarrow> app_state" where
  "stopCamera s =
     s\<lparr>analysisIntervalRef := None, streamRef := False, stream := False,
       isCameraOn := False, analysisResult := StartCameraMsg\<rparr>"

text \<open>
  \<open>handleToggleCamera\<close> up to its \<open>await\<close>; \<open>context_ok\<close> tells whether constructing
  the \<open>AudioContext\<close> succeeds when there is none yet.
\<close>

definition handleToggleCamera :: "bool \<Rightarrow> app_state \<Rightarrow> app_state" where
  "handleToggleCamera context_ok s =
     (if isCameraOn s then stopCamera s
      else
        let s1 = s\<lparr>error := None\<rparr> in
        if \<not> audioContextRef s1 \<and> \<not> context_ok
        then s1\<lparr>error := Some CameraFailedMsg, isCameraOn := False\<rparr>
        else s1\<lparr>audioContextRef := True, pendingCamera := Suc (pendingCamera s1)\<rparr>)"

text \<open>The rest of it, once \<open>getUserMedia\<close> has resolved (\<open>granted\<close>) or rejected.\<close>

definition handleToggleCamera_resume :: "bool \<Rightarrow> app_state \<Rightarrow> app_state" where
  "handleToggleCamera_resume granted s =
     (if granted
      then s\<lparr>streamRef := True, stream := True, isCameraOn := True,
             analysisResult := CameraOnMsg\<rparr>
      else s\<lparr>error := Some CameraFailedMsg, isCameraOn := False\<rparr>)"

subsection \<open>\<open>playAudio\<close> (lines 76-97)\<close>

text \<open>
  The result tells whether \<open>playAudio\<close> is now waiting for \<open>onended\<close> (\<open>True\<close>) or has
  returned. Inside its \<open>try\<close>, \<open>atob\<close> and \<open>decodeAudioData\<close> can throw; creating,
  connecting and starting the buffer source are taken to succeed.
\<close>

definition playAudio :: "jsstring option \<Rightarrow> app_state \<Rightarrow> bool \<times> app_state" where
  "playAudio base64Audio s =
     (if \<not> audioContextRef s then (False, s)
      else
        case base64Audio of
          None \<Rightarrow> (False, s\<lparr>error := Some PlaybackFailedMsg\<rparr>)
        | Some binaryString \<Rightarrow>
            (case decodeAudioData (decode binaryString) 24000 1 of
               Inl e \<Rightarrow> (False, s\<lparr>error := Some PlaybackFailedMsg\<rparr>)
             | Inr audioBuffer \<Rightarrow> (True, s)))"

subsection \<open>\<open>runAnalysis\<close> (lines 99-151)\<close>

text \<open>
  The part before \<open>await analyzeFrame\<close>, run by the interval \<open>tm\<close>. \<open>refs_present\<close>
  tells whether the video and canvas refs are set, \<open>context_ok\<close> whether the canvas gives
  a 2d context.
\<close>

definition runAnalysis :: "interval_timer \<Rightarrow> bool \<Rightarrow> bool \<Rightarrow> app_state \<Rightarrow> app_state" where
  "runAnalysis tm refs_present context_ok s =
     (if \<not> refs_present then s
      else if seen_isLoading tm \<or> seen_isSpeaking tm \<or> seen_isOnCooldown tm then s
      else
        let s1 = s\<lparr>isLoading := True, error := None\<rparr> in
        if context_ok
        then s1\<lparr>frames := Suc (frames s1),
                cycles := cycles s1 @ [AwaitAnalysis (seen_isOnCooldown tm)]\<rparr>
        else s1\<lparr>isLoading := False\<rparr>)"

text \<open>The \<open>finally\<close> block (lines 128-135) of the \<open>k\<close>-th suspended call.\<close>

definition runAnalysis_finally :: "nat \<Rightarrow> app_state \<Rightarrow> app_state" where
  "runAnalysis_finally k s =
     s\<lparr>isSpeaking := False, analysisResult := CooldownMsg,
       cooldownTimeouts := cooldownTimeouts s @ [now s + COOLDOWN_DURATION_MS],
       cycles := drop_nth k (cycles s)\<rparr>"

text \<open>
  The \<open>k\<close>-th suspended call resumes after \<open>await analyzeFrame\<close> (lines 116-147) with
  the outcome of the call; \<open>seen_cooldown\<close> is the \<open>isOnCooldown\<close> of its closure.
\<close>

definition runAnalysis_analyzed ::
  "(nat \<Rightarrow> nat list) \<Rightarrow> nat \<Rightarrow> bool \<Rightarrow> jsstring + jsstring \<Rightarrow> app_state \<Rightarrow> app_state" where
  "runAnalysis_analyzed tab k seen_cooldown outcome s =
     (case outcome of
        Inl errorMessage \<Rightarrow>
          s\<lparr>isLoading := False, error := Some (AnalysisFailedMsg errorMessage),
            cycles := drop_nth k (cycles s)\<rparr>
      | Inr result \<Rightarrow>
          (case classify tab result of
             Detected text \<Rightarrow>
               s\<lparr>analysisResult := ResultMsg text, isLoading := False, isSpeaking := True,
                 isOnCooldown := True, cycles := (cycles s)[k := AwaitSpeech text]\<rparr>
           | NoPerson \<Rightarrow>
               (let s1 = s\<lparr>isLoading := False, cycles := drop_nth k (cycles s)\<rparr> in
                if \<not> seen_cooldown then s1\<lparr>analysisResult := NoPersonMsg\<rparr> else s1)))"

text \<open>It resumes after \<open>await textToSpeech(result)\<close> (lines 124-135).\<close>

definition runAnalysis_spoken :: "nat \<Rightarrow> unit + jsstring option \<Rightarrow> app_state \<Rightarrow> app_state" where
  "runAnalysis_spoken k outcome s =
     (case outcome of
        Inl ttsError \<Rightarrow> runAnalysis_finally k s
      | Inr audioData \<Rightarrow>
          (case playAudio audioData s of
             (True, s1) \<Rightarrow> s1\<lparr>cycles := (cycles s1)[k := AwaitPlayback]\<rparr>
           | (False, s1) \<Rightarrow> runAnalysis_finally k s1))"

text \<open>The callback of the cooldown's \<open>setTimeout\<close> (lines 131-134).\<close>

definition cooldown_timeout :: "nat \<Rightarrow> app_state \<Rightarrow> app_state" where
  "cooldown_timeout j s =
     s\<lparr>isOnCooldown := False, analysisResult := ReadyMsg,
       cooldownTimeouts := drop_nth j (cooldownTimeouts s)\<rparr>"

text \<open>
  The slider (lines 255-266) is disabled while the camera is off and offers the values
  2000, 3000, ..., 20000; its handler stores the value.
\<close>

definition slider_value :: "nat \<Rightarrow> bool" where
  "slider_value n \<longleftrightarrow> 2000 \<le> n \<and> n \<le> 20000 \<and> n mod 1000 = 0"

definition setAnalysisInterval :: "nat \<Rightarrow> app_state \<Rightarrow> app_state" where
  "setAnalysisInterval n s = rerender s (s\<lparr>analysisInterval := n\<rparr>)"

subsection \<open>Events\<close>

datatype event =
    Advance nat                   \<comment> \<open>time passes\<close>
  | ClickToggle bool              \<comment> \<open>the camera button; whether an \<open>AudioContext\<close> can be made\<close>
  | CameraAnswer bool             \<comment> \<open>a pending \<open>getUserMedia\<close> resolves or rejects\<close>
  | Tick bool bool                \<comment> \<open>the interval fires; refs present, 2d context available\<close>
  | AnalysisDone nat api_response \<comment> \<open>the remote analysis call of the \<open>k\<close>-th cycle settles\<close>
  | SpeechDone nat tts_response   \<comment> \<open>the remote speech call of the \<open>k\<close>-th cycle settles\<close>
  | PlaybackEnded nat             \<comment> \<open>\<open>onended\<close> of the \<open>k\<close>-th cycle's playback\<close>
  | CooldownExpired nat           \<comment> \<open>the \<open>j\<close>-th pending cooldown timeout fires\<close>
  | SliderChange nat              \<comment> \<open>the interval slider moves to a value\<close>

text \<open>
  One event, handled to completion and followed by the render. \<open>None\<close>: the event
  cannot happen in this state (no such timer, call or enabled control; a timer before
  its time). The component stays mounted: unmounting is not an event.
\<close>

fun step :: "(nat \<Rightarrow> nat list) \<Rightarrow> client \<Rightarrow> app_state \<Rightarrow> event \<Rightarrow> app_state option" where
  "step tab ai s (Advance d) = Some (s\<lparr>now := now s + d\<rparr>)"
| "step tab ai s (ClickToggle context_ok) = Some (rerender s (handleToggleCamera context_ok s))"
| "step tab ai s (CameraAnswer granted) =
     (if pendingCamera s = 0 then None
      else Some (rerender s
             (handleToggleCamera_resume granted (s\<lparr>pendingCamera := pendingCamera s - 1\<rparr>))))"
| "step tab ai s (Tick refs_present context_ok) =
     (case analysisIntervalRef s of
        None \<Rightarrow> None
      | Some tm \<Rightarrow>
          if now s < due tm then None
          else Some (rerender s
                 (runAnalysis tm refs_present context_ok
                    (s\<lparr>analysisIntervalRef := Some (tm\<lparr>due := now s + period tm\<rparr>)\<rparr>))))"
| "step tab ai s (AnalysisDone k response) =
     (if k < length (cycles s)
      then (case cycles s ! k of
              AwaitAnalysis seen_cooldown \<Rightarrow>
                Some (rerender s
                  (runAnalysis_analyzed tab k seen_cooldown (analyzeFrame ai response) s))
            | AwaitSpeech text \<Rightarrow> None
            | AwaitPlayback \<Rightarrow> None)
      else None)"
| "step tab ai s (SpeechDone k response) =
     (if k < length (cycles s)
      then (case cycles s ! k of
              AwaitAnalysis seen_cooldown \<Rightarrow> None
            | AwaitSpeech text \<Rightarrow>
                Some (rerender s (runAnalysis_spoken k (textToSpeech ai response) s))
            | AwaitPlayback \<Rightarrow> None)
      else None)"
| "step tab ai s (PlaybackEnded k) =
     (if k < length (cycles s)
      then (case cycles s ! k of
              AwaitAnalysis seen_cooldown \<Rightarrow> None
            | AwaitSpeech text \<Rightarrow> None
            | AwaitPlayback \<Rightarrow> Some (rerender s (runAnalysis_finally k s)))
      else None)"
| "step tab ai s (CooldownExpired j) =
     (if j < length (cooldownTimeouts s) \<and> cooldownTimeouts s ! j \<le> now s
      then Some (rerender s (cooldown_timeout j s))
      else None)"
| "step tab ai s (SliderChange n) =
     (if isCameraOn s \<and> slider_value n then Some (setAnalysisInterval n s) else None)"

fun run :: "(nat \<Rightarrow> nat list) \<Rightarrow> client \<Rightarrow> app_state \<Rightarrow> event list \<Rightarrow> app_state option" where
  "run tab ai s [] = Some s"
| "run tab ai s (e # es) =
     (case step tab ai s e of None \<Rightarrow> None | Some s' \<Rightarrow> run tab ai s' es)"

text \<open>
  The program: \<open>App.tsx\<close> imports the client module, so the module is loaded first and
  the component exists only when that has not thrown.
\<close>

definition run_program ::
  "(nat \<Rightarrow> nat list) \<Rightarrow> jsstring option \<Rightarrow> event list \<Rightarrow> js_error + app_state option" where
  "run_program tab env_API_KEY es =
     (case load_geminiService env_API_KEY of
        Inl e \<Rightarrow> Inl e
      | Inr ai \<Rightarrow> Inr (run tab ai initial_state es))"

section \<open>Notions used to state the properties\<close>

text \<open>
  Following the spec's words (16-bit signed little-endian PCM): the encoding of a sequence
  of samples, low byte first.
\<close>

definition pcm16_bytes :: "int list \<Rightarrow> byte list" where
  "pcm16_bytes samples = concat (map (\<lambda>x. [word_of_int x, word_of_int (x div 256)]) samples)"

text \<open>
  Following the spec's words (any casing of the sentinel token): two strings are casings
  of each other when they differ at most in the case of ASCII letters.
\<close>

definition ascii_upper :: "nat \<Rightarrow> nat" where
  "ascii_upper c = (if 97 \<le> c \<and> c \<le> 122 then c - 32 else c)"

definition is_casing_of :: "jsstring \<Rightarrow> jsstring \<Rightarrow> bool" where
  "is_casing_of r token \<longleftrightarrow> map ascii_upper r = map ascii_upper token"

text \<open>A case table and a client for concrete runs: the table leaves every code point as it is.\<close>

definition identity_table :: "nat \<Rightarrow> nat list" where
  "identity_table cp = [cp]"

text \<open>
  A fragment of the Unicode case tables: the long s, U+017F (383), has the upper-case form
  \<open>S\<close> (83), as \<open>toUpperCase\<close> of JavaScript has it; the other code points are left as
  they are.
\<close>

definition long_s_table :: "nat \<Rightarrow> nat list" where
  "long_s_table cp = (if cp = 383 then [83] else [cp])"

definition test_client :: client where
  "test_client = \<lparr>apiKey = ascii ''key''\<rparr>"

text \<open>
  The invariant of the controller. The interval exists exactly while the camera is on, and
  its closure has captured the current flags.
\<close>

definition timer_inv :: "app_state \<Rightarrow> bool" where
  "timer_inv s \<longleftrightarrow>
     (case analysisIntervalRef s of
        None \<Rightarrow> \<not> isCameraOn s
      | Some tm \<Rightarrow>
          isCameraOn s \<and> period tm = analysisInterval s \<and>
          seen_isLoading tm = isLoading s \<and> seen_isSpeaking tm = isSpeaking s \<and>
          seen_isOnCooldown tm = isOnCooldown s)"

text \<open>
  There is no suspended call and at most one cooldown timeout, pending exactly while
  \<open>isOnCooldown\<close> is set; or one call waits for the analysis; or one call waits for the
  speech or the playback.
\<close>

definition cycle_inv :: "app_state \<Rightarrow> bool" where
  "cycle_inv s \<longleftrightarrow>
     (cycles s = [] \<and> \<not> isLoading s \<and> \<not> isSpeaking s \<and>
        (if isOnCooldown s then length (cooldownTimeouts s) = 1 else cooldownTimeouts s = []))
     \<or> (cycles s = [AwaitAnalysis False] \<and> isLoading s \<and> \<not> isSpeaking s \<and>
        \<not> isOnCooldown s \<and> cooldownTimeouts s = [])
     \<or> (length (cycles s) = 1 \<and> (\<forall>seen. cycles s \<noteq> [AwaitAnalysis seen]) \<and> \<not> isLoading s \<and>
        isSpeaking s \<and> isOnCooldown s \<and> cooldownTimeouts s = [])"

definition app_inv :: "app_state \<Rightarrow> bool" where
  "app_inv s \<longleftrightarrow> timer_inv s \<and> cycle_inv s"

text \<open>What a handler may do to the interval before the render.\<close>

definition timer_rel :: "app_state \<Rightarrow> app_state \<Rightarrow> bool" where
  "timer_rel prev s \<longleftrightarrow>
     analysisIntervalRef s = analysisIntervalRef prev
     \<or> (\<exists>tm d. analysisIntervalRef prev = Some tm \<and> analysisIntervalRef s = Some (tm\<lparr>due := d\<rparr>))
     \<or> (analysisIntervalRef s = None \<and> \<not> isCameraOn s)"

text \<open>
  The state is cooling down until \<open>T\<close>: the cooldown flag is set, and either a call is still
  speaking and its timeout, once started, will not be due before \<open>T\<close>, or the pending
  timeout is not due before \<open>T\<close>.
\<close>

definition cooling :: "nat \<Rightarrow> app_state \<Rightarrow> bool" where
  "cooling T s \<longleftrightarrow>
     app_inv s \<and> isOnCooldown s \<and>
     (if cycles s = [] then \<exists>d. cooldownTimeouts s = [d] \<and> T \<le> d
      else T \<le> now s + COOLDOWN_DURATION_MS)"

text \<open>
  A concrete run: the camera is switched on, access is granted, and the first tick, after
  the default 10 seconds, captures a frame. Then the states in which the analysis has
  returned the greeting \<open>hi\<close>, and in which the camera was switched off during the analysis.
\<close>

definition camera_trace :: "event list" where
  "camera_trace = [ClickToggle True, CameraAnswer True, Advance 10000, Tick True True]"

definition analyzing_state :: app_state where
  "analyzing_state =
     \<lparr>isCameraOn = True, isLoading = True, isSpeaking = False, isOnCooldown = False,
      analysisResult = CameraOnMsg, error = None, stream = True, analysisInterval = 10000,
      analysisIntervalRef =
        Some \<lparr>due = 20000, period = 10000, seen_isLoading = True, seen_isSpeaking = False,
              seen_isOnCooldown = False\<rparr>,
      streamRef = True, audioContextRef = True, now = 10000, cycles = [AwaitAnalysis False],
      cooldownTimeouts = [], pendingCamera = 0, frames = 1\<rparr>"

definition speaking_state :: app_state where
  "speaking_state =
     analyzing_state
       \<lparr>isLoading := False, isSpeaking := True, isOnCooldown := True,
        analysisResult := ResultMsg (ascii ''hi''), cycles := [AwaitSpeech (ascii ''hi'')],
        analysisIntervalRef :=
          Some \<lparr>due = 20000, period = 10000, seen_isLoading = False, seen_isSpeaking = True,
                seen_isOnCooldown = True\<rparr>\<rparr>"

definition stopped_state :: app_state where
  "stopped_state =
     analyzing_state
       \<lparr>isCameraOn := False, analysisResult := StartCameraMsg, stream := False,
        analysisIntervalRef := None, streamRef := False\<rparr>"

text \<open>
  Further states of concrete runs: the speech call has failed in \<open>speaking_state\<close>; the
  audio of a call is playing, half a second after its start, with the camera switched off;
  the analysis has failed in \<open>analyzing_state\<close>.
\<close>

definition cooldown_state :: app_state where
  "cooldown_state =
     speaking_state
       \<lparr>isSpeaking := False, analysisResult := CooldownMsg, cycles := [],
        cooldownTimeouts := [30000],
        analysisIntervalRef :=
          Some \<lparr>due = 20000, period = 10000, seen_isLoading = False, seen_isSpeaking = False,
                seen_isOnCooldown = True\<rparr>\<rparr>"

definition playing_stopped_state :: app_state where
  "playing_stopped_state =
     stopped_state
       \<lparr>isLoading := False, isSpeaking := True, isOnCooldown := True,
        analysisResult := ResultMsg (ascii ''hi''), cycles := [AwaitPlayback], now := 10500\<rparr>"

definition failed_state :: app_state where
  "failed_state =
     analyzing_state
       \<lparr>isLoading := False,
        error := Some (AnalysisFailedMsg (ascii ''An unknown error occurred during analysis.'')),
        cycles := [],
        analysisIntervalRef :=
          Some \<lparr>due = 20000, period = 10000, seen_isLoading = False, seen_isSpeaking = False,
                seen_isOnCooldown = False\<rparr>\<rparr>"

section \<open>Audio decoding\<close>

lemma fill_channel_eq:
  "length cd = n \<Longrightarrow> k \<le> n \<Longrightarrow>
   fill_channel d nc ch [k..<n] cd = take k cd @ map (\<lambda>i. real_of_int (sint (d ! (i * nc + ch))) / 32768) [k..<n]"
proof (induction "n - k" arbitrary: k cd)
  case 0
  then show ?case by simp
next
  case (Suc m)
  then have kn: "k < n" by simp
  have up: "[k..<n] = k # [Suc k..<n]" using kn by (simp add: upt_conv_Cons)
  have "fill_channel d nc ch [k..<n] cd =
        fill_channel d nc ch [Suc k..<n] (cd[k := real_of_int (sint (d ! (k * nc + ch))) / 32768])"
    by (simp add: up)
  also have "\<dots> = take (Suc k) (cd[k := real_of_int (sint (d ! (k * nc + ch))) / 32768]) @
        map (\<lambda>i. real_of_int (sint (d ! (i * nc + ch))) / 32768) [Suc k..<n]"
    using Suc by (intro Suc.hyps(1)) auto
  also have "\<dots> = take k cd @ map (\<lambda>i. real_of_int (sint (d ! (i * nc + ch))) / 32768) [k..<n]"
    using kn Suc.prems by (simp add: up take_Suc_conv_app_nth)
  finally show ?case .
qed

lemma fill_channel_all:
  "length cd = n \<Longrightarrow>
   fill_channel d nc ch [0..<n] cd = map (\<lambda>i. real_of_int (sint (d ! (i * nc + ch))) / 32768) [0..<n]"
  using fill_channel_eq [of cd n 0 d nc ch] by simp

lemma fill_channels_eq:
  "length chans = m \<Longrightarrow> k \<le> m \<Longrightarrow> \<forall>c\<in>set chans. length c = n \<Longrightarrow>
   fill_channels d nc n [k..<m] chans =
     take k chans @ map (\<lambda>ch. map (\<lambda>i. real_of_int (sint (d ! (i * nc + ch))) / 32768) [0..<n]) [k..<m]"
proof (induction "m - k" arbitrary: k chans)
  case 0
  then show ?case by simp
next
  case (Suc j)
  then have km: "k < m" by simp
  have up: "[k..<m] = k # [Suc k..<m]" using km by (simp add: upt_conv_Cons)
  let ?row = "\<lambda>ch. map (\<lambda>i. real_of_int (sint (d ! (i * nc + ch))) / 32768) [0..<n]"
  have row: "fill_channel d nc k [0..<n] (chans ! k) = ?row k"
    using Suc.prems km by (intro fill_channel_all) simp
  have len: "\<forall>c\<in>set (chans[k := ?row k]). length c = n"
    using Suc.prems by (auto dest!: set_update_subset_insert [THEN subsetD])
  have "fill_channels d nc n [k..<m] chans = fill_channels d nc n [Suc k..<m] (chans[k := ?row k])"
    by (simp add: up row)
  also have "\<dots> = take (Suc k) (chans[k := ?row k]) @ map ?row [Suc k..<m]"
    using Suc len by (intro Suc.hyps(1)) auto
  also have "\<dots> = take k chans @ map ?row [k..<m]"
    using km Suc.prems by (simp add: up take_Suc_conv_app_nth)
  finally show ?case .
qed

lemma decodeAudioData_eq:
  "decodeAudioData data rate nc =
     (if odd (length data) then Inl RangeError
      else if nc = 0 \<or> length data div 2 div nc = 0 then Inl NotSupportedError
      else Inr \<lparr>sampleRate = rate,
                 channels = map (\<lambda>ch. map (\<lambda>i. real_of_int (sint (int16_at data (i * nc + ch))) / 32768)
                                  [0..<length data div 2 div nc]) [0..<nc]\<rparr>)"
proof (cases "odd (length data)")
  case True
  then show ?thesis by (simp add: decodeAudioData_def Int16Array_def)
next
  case ev: False
  define d where "d = map (int16_at data) [0..<length data div 2]"
  have i16: "Int16Array data = Inr d" using ev by (simp add: Int16Array_def d_def)
  have ld: "length d = length data div 2" by (simp add: d_def)
  let ?fc = "length d div nc"
  show ?thesis
  proof (cases "nc = 0 \<or> ?fc = 0")
    case True
    then have "createBuffer nc ?fc rate = Inl NotSupportedError" by (auto simp: createBuffer_def)
    then show ?thesis using ev True by (auto simp: decodeAudioData_def i16 ld Let_def)
  next
    case False
    then have cb: "createBuffer nc ?fc rate =
        Inr \<lparr>sampleRate = rate, channels = replicate nc (replicate ?fc 0)\<rparr>"
      by (simp add: createBuffer_def)
    have fill: "fill_channels d nc ?fc [0..<nc] (replicate nc (replicate ?fc 0)) =
        map (\<lambda>ch. map (\<lambda>i. real_of_int (sint (d ! (i * nc + ch))) / 32768) [0..<?fc]) [0..<nc]"
      using fill_channels_eq [of "replicate nc (replicate ?fc 0)" nc 0 ?fc d nc] by simp
    have idx: "d ! (i * nc + ch) = int16_at data (i * nc + ch)" if "i < ?fc" "ch < nc" for i ch
    proof -
      have "i * nc + ch < Suc i * nc" using that by simp
      also have "\<dots> \<le> ?fc * nc" using that by (intro mult_le_mono1) simp
      also have "\<dots> \<le> length d" by simp
      finally show ?thesis by (simp add: d_def)
    qed
    have "fill_channels d nc ?fc [0..<nc] (replicate nc (replicate ?fc 0)) =
        map (\<lambda>ch. map (\<lambda>i. real_of_int (sint (int16_at data (i * nc + ch))) / 32768) [0..<?fc]) [0..<nc]"
      unfolding fill using idx by (simp del: of_int_sint)
    then show ?thesis using ev False
      by (simp add: decodeAudioData_def i16 cb [unfolded ld] ld Let_def del: of_int_sint)
  qed
qed

lemma sample_range:
  "- 1 \<le> real_of_int (sint (w :: 16 word)) / 32768 \<and> real_of_int (sint w) / 32768 < 1"
proof -
  have "- 32768 \<le> sint w" "sint w < 32768"
    using sint_ge [of w] sint_lt [of w] by simp_all
  then have "real_of_int (- 32768) \<le> real_of_int (sint w)" "real_of_int (sint w) < real_of_int 32768"
    by (simp_all only: of_int_le_iff of_int_less_iff)
  then show ?thesis by (simp del: of_int_sint)
qed

lemma word_cat_bytes:
  "(word_cat (word_of_int (x div 256) :: 8 word) (word_of_int x :: 8 word) :: 16 word) = word_of_int x"
proof (rule bit_word_eqI)
  fix n :: nat
  assume n: "n < LENGTH(16)"
  have d: "x div 256 = drop_bit 8 x" by (simp add: drop_bit_eq_div)
  show "bit (word_cat (word_of_int (x div 256) :: 8 word) (word_of_int x :: 8 word) :: 16 word) n
      = bit (word_of_int x :: 16 word) n"
  proof (cases "n < 8")
    case True
    then show ?thesis using n by (simp add: bit_word_cat_iff bit_word_of_int_iff)
  next
    case False
    then have "8 + (n - 8) = n" "n - 8 < 8" using n by simp_all
    then show ?thesis using n False
      by (simp add: bit_word_cat_iff bit_word_of_int_iff d bit_drop_bit_eq)
  qed
qed

lemma int16_roundtrip:
  assumes "- 32768 \<le> x" "x < 32768"
  shows "sint (word_cat (word_of_int (x div 256) :: 8 word) (word_of_int x :: 8 word) :: 16 word) = x"
  using assms by (simp add: word_cat_bytes sint_sbintrunc' signed_take_bit_int_eq_self)

lemma int16_at_pcm16:
  "i < length xs \<Longrightarrow> int16_at (pcm16_bytes xs) i = word_cat (word_of_int (xs ! i div 256) :: 8 word) (word_of_int (xs ! i) :: 8 word)"
proof (induction xs arbitrary: i)
  case Nil
  then show ?case by simp
next
  case (Cons x xs)
  show ?case
  proof (cases i)
    case 0
    then show ?thesis by (simp add: int16_at_def pcm16_bytes_def)
  next
    case (Suc j)
    then show ?thesis using Cons.IH [of j] Cons.prems
      by (simp add: int16_at_def pcm16_bytes_def)
  qed
qed

lemma length_pcm16: "length (pcm16_bytes xs) = 2 * length xs"
  by (induction xs) (simp_all add: pcm16_bytes_def)

lemma decode_pcm16:
  assumes "xs \<noteq> []" "\<forall>x\<in>set xs. - 32768 \<le> x \<and> x < 32768"
  shows "decodeAudioData (pcm16_bytes xs) 24000 1 =
     Inr \<lparr>sampleRate = 24000, channels = [map (\<lambda>x. real_of_int x / 32768) xs]\<rparr>"
proof -
  have "map (\<lambda>i. real_of_int (sint (int16_at (pcm16_bytes xs) i)) / 32768) [0..<length xs]
      = map (\<lambda>x. real_of_int x / 32768) xs"
    using assms(2) by (intro nth_equalityI) (simp_all add: int16_at_pcm16 int16_roundtrip del: of_int_sint)
  then show ?thesis using assms(1)
    by (simp add: decodeAudioData_eq length_pcm16 del: of_int_sint)
qed

text \<open>
  Claim C7 (decode correctness). Whenever \<open>decodeAudioData\<close> returns a buffer, the buffer
  has the given sample rate and channel count, and each of its samples is the 16-bit signed
  little-endian integer at that position divided by 32768, gives that integer back when
  multiplied by 32768, and lies in [-1, 1]. Decoding the little-endian encoding of a
  non-empty sequence of 16-bit samples at 24000 Hz, 1 channel, gives exactly these samples
  divided by 32768. The division is by a power of two, so it is exact in binary floating
  point and the real numbers of the model are the values stored.
\<close>

theorem decode_correctness:
  "(decodeAudioData data rate numChannels = Inr buf \<longrightarrow>
      sampleRate buf = rate \<and> length (channels buf) = numChannels \<and>
      (\<forall>channel < numChannels. length (channels buf ! channel) = length data div 2 div numChannels \<and>
        (\<forall>i < length data div 2 div numChannels.
           channels buf ! channel ! i =
             real_of_int (sint (int16_at data (i * numChannels + channel))) / 32768 \<and>
           channels buf ! channel ! i * 32768 =
             real_of_int (sint (int16_at data (i * numChannels + channel))) \<and>
           - 1 \<le> channels buf ! channel ! i \<and> channels buf ! channel ! i \<le> 1)))
   \<and> (samples \<noteq> [] \<and> (\<forall>x\<in>set samples. - 32768 \<le> x \<and> x < 32768) \<longrightarrow>
        decodeAudioData (pcm16_bytes samples) 24000 1 =
          Inr \<lparr>sampleRate = 24000, channels = [map (\<lambda>x. real_of_int x / 32768) samples]\<rparr>)"
proof (intro conjI impI)
  assume a: "decodeAudioData data rate numChannels = Inr buf"
  from a have d: "even (length data)" "numChannels \<noteq> 0" "buf = \<lparr>sampleRate = rate,
      channels = map (\<lambda>ch. map (\<lambda>i. real_of_int (sint (int16_at data (i * numChannels + ch))) / 32768)
                                  [0..<length data div 2 div numChannels]) [0..<numChannels]\<rparr>"
    by (auto simp: decodeAudioData_eq simp del: of_int_sint split: if_splits)
  show "sampleRate buf = rate" using d by simp
  show "length (channels buf) = numChannels" using d by simp
  show "\<forall>channel < numChannels. length (channels buf ! channel) = length data div 2 div numChannels \<and>
        (\<forall>i < length data div 2 div numChannels.
           channels buf ! channel ! i =
             real_of_int (sint (int16_at data (i * numChannels + channel))) / 32768 \<and>
           channels buf ! channel ! i * 32768 =
             real_of_int (sint (int16_at data (i * numChannels + channel))) \<and>
           - 1 \<le> channels buf ! channel ! i \<and> channels buf ! channel ! i \<le> 1)"
    using d sample_range by (auto simp: less_imp_le simp del: of_int_sint)
next
  assume "samples \<noteq> [] \<and> (\<forall>x\<in>set samples. - 32768 \<le> x \<and> x < 32768)"
  then show "decodeAudioData (pcm16_bytes samples) 24000 1 =
          Inr \<lparr>sampleRate = 24000, channels = [map (\<lambda>x. real_of_int x / 32768) samples]\<rparr>"
    using decode_pcm16 by blast
qed

lemma pcm16_example: "pcm16_bytes [16384, - 32768] = [0, 64, 0, 128]"
  by (simp add: pcm16_bytes_def)

text \<open>The samples 16384 and -32768 decode to 0.5 and -1.\<close>

theorem decode_correctness_witness:
  "decodeAudioData [0, 64, 0, 128] 24000 1 = Inr \<lparr>sampleRate = 24000, channels = [[1 / 2, - 1]]\<rparr>
   \<and> [16384, - 32768] \<noteq> ([] :: int list)
   \<and> pcm16_bytes [16384, - 32768] = [0, 64, 0, 128]
   \<and> sint (int16_at [0, 64, 0, 128] 0) = 16384 \<and> sint (int16_at [0, 64, 0, 128] 1) = - 32768"
  using decode_correctness [of "[0, 64, 0, 128]" 24000 1 "\<lparr>sampleRate = 24000, channels = [[1 / 2, - 1]]\<rparr>" "[16384, - 32768]"]
  by (simp add: pcm16_example int16_at_def word_cat_eq)

text \<open>
  Claim C9 (odd length). For every buffer of odd length the construction of the
  \<open>Int16Array\<close> throws a \<open>RangeError\<close> and no buffer is produced; \<open>decodeAudioData\<close>
  returns a buffer only for buffers of even length.
\<close>

theorem decode_odd_length:
  "(odd (length data) \<longrightarrow> decodeAudioData data rate numChannels = Inl RangeError)
   \<and> (decodeAudioData data rate numChannels = Inr buf \<longrightarrow> even (length data))"
  by (auto simp: decodeAudioData_def Int16Array_def)

theorem decode_odd_length_witness:
  "odd (length [0, 64, 0 :: byte]) \<and> decodeAudioData [0, 64, 0] 24000 1 = Inl RangeError
   \<and> decodeAudioData [0, 64] 24000 1 = Inr \<lparr>sampleRate = 24000, channels = [[1 / 2]]\<rparr>
   \<and> even (length [0, 64 :: byte])"
  using decode_odd_length [of "[0, 64, 0]" 24000 1]
    decode_odd_length [of "[0, 64]" 24000 1 "\<lparr>sampleRate = 24000, channels = [[1 / 2]]\<rparr>"]
  by (simp add: decodeAudioData_eq int16_at_def word_cat_eq)

section \<open>The sentinel\<close>

lemma sentinel_units: "ascii ''NOPERS'' = [78, 79, 80, 69, 82, 83]"
  by (simp add: ascii_def)

lemma code_points_bmp: "\<forall>c\<in>set s. c < 55296 \<Longrightarrow> code_points s = s"
  by (induction s rule: code_points.induct) auto

lemma toUpperCase_ascii:
  assumes "\<forall>c\<in>set s. c < 128"
  shows "toUpperCase tab s = map ascii_upper s"
proof -
  have cp: "code_points s = s" using assms by (intro code_points_bmp) auto
  have "concat (map code_units (concat (map (upper_cp tab) s))) = map ascii_upper s"
    using assms by (induction s) (auto simp: upper_cp_def code_units_def ascii_upper_def)
  then show ?thesis by (simp add: toUpperCase_def cp)
qed

lemma casing_is_ascii:
  assumes "is_casing_of r (ascii ''NOPERS'')"
  shows "\<forall>c\<in>set r. c < 128"
proof
  fix c assume c: "c \<in> set r"
  from assms have "map ascii_upper r = [78, 79, 80, 69, 82, 83]"
    by (simp add: is_casing_of_def sentinel_units ascii_upper_def)
  then have "ascii_upper c \<in> set [78, 79, 80, 69, 82, 83]"
    using c by (metis image_eqI set_map)
  then show "c < 128" by (auto simp: ascii_upper_def split: if_splits)
qed

lemma code_units_big: "128 \<le> u \<Longrightarrow> \<exists>x\<in>set (code_units u). 128 \<le> x"
  by (simp add: code_units_def)

lemma toUpperCase_non_ascii:
  assumes "cp \<in> set (code_points r)" "128 \<le> cp" "u \<in> set (tab cp)" "128 \<le> u"
  shows "\<exists>x\<in>set (toUpperCase tab r). 128 \<le> x"
proof -
  have "u \<in> set (upper_cp tab cp)" using assms by (simp add: upper_cp_def)
  then have "u \<in> set (concat (map (upper_cp tab) (code_points r)))" using assms(1) by auto
  moreover obtain x where "x \<in> set (code_units u)" "128 \<le> x"
    using code_units_big [OF assms(4)] by blast
  ultimately show ?thesis unfolding toUpperCase_def by auto
qed

text \<open>
  Claim C6 (sentinel classification), as the spec states it, fails: with the long s for its
  last letter, \<open>NOPER\<close> followed by U+017F is not empty and is no casing of \<open>NOPERS\<close>, yet
  its upper-case form is the sentinel and it is classified as no person.
\<close>

theorem sentinel_long_s_counterexample:
  "[78, 79, 80, 69, 82, 383] \<noteq> ([] :: nat list)
   \<and> \<not> is_casing_of [78, 79, 80, 69, 82, 383] (ascii ''NOPERS'')
   \<and> long_s_table 383 = [83]
   \<and> toUpperCase long_s_table [78, 79, 80, 69, 82, 383] = ascii ''NOPERS''
   \<and> classify long_s_table [78, 79, 80, 69, 82, 383] = NoPerson"
  by (simp add: is_casing_of_def ascii_upper_def ascii_def long_s_table_def classify_def
        toUpperCase_def upper_cp_def code_units_def)

text \<open>
  Claim C6, amended. Whatever the case table: the empty text and every casing of \<open>NOPERS\<close>
  are classified as no person, and so is every text that has a code unit beyond ASCII and
  whose upper-case form is the sentinel. Every other text is classified as detected, with
  that text: in particular every other non-empty ASCII text, and every text with a code
  point beyond ASCII whose upper-case form keeps a code point beyond ASCII (a Hebrew
  greeting).
\<close>

theorem sentinel_classification:
  "classify tab [] = NoPerson
   \<and> (is_casing_of r (ascii ''NOPERS'') \<longrightarrow> classify tab r = NoPerson)
   \<and> ((\<exists>c\<in>set r. 128 \<le> c) \<and> toUpperCase tab r = ascii ''NOPERS'' \<longrightarrow> classify tab r = NoPerson)
   \<and> (r \<noteq> [] \<and> \<not> is_casing_of r (ascii ''NOPERS'') \<and>
        \<not> ((\<exists>c\<in>set r. 128 \<le> c) \<and> toUpperCase tab r = ascii ''NOPERS'')
        \<longrightarrow> classify tab r = Detected r)
   \<and> (r \<noteq> [] \<and> (\<forall>c\<in>set r. c < 128) \<and> \<not> is_casing_of r (ascii ''NOPERS'')
        \<longrightarrow> classify tab r = Detected r)
   \<and> ((\<exists>cp\<in>set (code_points r). 128 \<le> cp \<and> (\<exists>u\<in>set (tab cp). 128 \<le> u))
        \<longrightarrow> classify tab r = Detected r)"
proof (intro conjI impI)
  show "classify tab [] = NoPerson" by (simp add: classify_def)
next
  assume c: "is_casing_of r (ascii ''NOPERS'')"
  then have "toUpperCase tab r = map ascii_upper r"
    by (intro toUpperCase_ascii casing_is_ascii)
  also have "\<dots> = ascii ''NOPERS''"
    using c by (simp add: is_casing_of_def sentinel_units ascii_upper_def)
  finally show "classify tab r = NoPerson" by (simp add: classify_def)
next
  assume "(\<exists>c\<in>set r. 128 \<le> c) \<and> toUpperCase tab r = ascii ''NOPERS''"
  then show "classify tab r = NoPerson" by (simp add: classify_def)
next
  assume a: "r \<noteq> [] \<and> \<not> is_casing_of r (ascii ''NOPERS'') \<and>
        \<not> ((\<exists>c\<in>set r. 128 \<le> c) \<and> toUpperCase tab r = ascii ''NOPERS'')"
  have "toUpperCase tab r \<noteq> ascii ''NOPERS''"
  proof (cases "\<exists>c\<in>set r. 128 \<le> c")
    case True
    with a show ?thesis by blast
  next
    case False
    then have "\<forall>c\<in>set r. c < 128" by (simp add: not_le)
    then have "toUpperCase tab r = map ascii_upper r" by (rule toUpperCase_ascii)
    moreover have "map ascii_upper r \<noteq> ascii ''NOPERS''"
      using a by (simp add: is_casing_of_def sentinel_units ascii_upper_def)
    ultimately show ?thesis by simp
  qed
  then show "classify tab r = Detected r" using a by (simp add: classify_def)
next
  assume a: "r \<noteq> [] \<and> (\<forall>c\<in>set r. c < 128) \<and> \<not> is_casing_of r (ascii ''NOPERS'')"
  then have "toUpperCase tab r = map ascii_upper r" by (intro toUpperCase_ascii) simp
  moreover have "map ascii_upper r \<noteq> ascii ''NOPERS''"
    using a by (simp add: is_casing_of_def sentinel_units ascii_upper_def)
  ultimately show "classify tab r = Detected r" using a by (simp add: classify_def)
next
  assume "\<exists>cp\<in>set (code_points r). 128 \<le> cp \<and> (\<exists>u\<in>set (tab cp). 128 \<le> u)"
  then obtain cp u where h: "cp \<in> set (code_points r)" "128 \<le> cp" "u \<in> set (tab cp)" "128 \<le> u"
    by blast
  from toUpperCase_non_ascii [of cp r u tab, OF h] obtain x where "x \<in> set (toUpperCase tab r)" "128 \<le> x"
    by blast
  then have "toUpperCase tab r \<noteq> ascii ''NOPERS''" by (auto simp: sentinel_units)
  moreover have "r \<noteq> []" using h(1) by auto
  ultimately show "classify tab r = Detected r" by (simp add: classify_def)
qed

theorem sentinel_classification_witness:
  "is_casing_of (ascii ''NoPers'') (ascii ''NOPERS'')
   \<and> classify identity_table (ascii ''NoPers'') = NoPerson
   \<and> classify identity_table (ascii ''nopers'') = NoPerson
   \<and> classify identity_table (ascii ''NOPERS'') = NoPerson
   \<and> toUpperCase long_s_table [78, 79, 80, 69, 82, 383] = ascii ''NOPERS''
   \<and> classify long_s_table [78, 79, 80, 69, 82, 383] = NoPerson
   \<and> \<not> is_casing_of (ascii ''NOPERS!'') (ascii ''NOPERS'')
   \<and> classify identity_table (ascii ''NOPERS!'') = Detected (ascii ''NOPERS!'')
   \<and> \<not> is_casing_of (ascii ''hello'') (ascii ''NOPERS'')
   \<and> classify long_s_table (ascii ''hello'') = Detected (ascii ''hello'')
   \<and> \<not> is_casing_of [1492, 1497, 1497] (ascii ''NOPERS'')
   \<and> toUpperCase long_s_table [1492, 1497, 1497] \<noteq> ascii ''NOPERS''
   \<and> classify long_s_table [1492, 1497, 1497] = Detected [1492, 1497, 1497]"
  using sentinel_classification [of identity_table "ascii ''NoPers''"]
    sentinel_classification [of identity_table "ascii ''nopers''"]
    sentinel_classification [of identity_table "ascii ''NOPERS''"]
    sentinel_classification [of long_s_table "[78, 79, 80, 69, 82, 383]"]
    sentinel_classification [of identity_table "ascii ''NOPERS!''"]
    sentinel_classification [of long_s_table "ascii ''hello''"]
    sentinel_classification [of long_s_table "[1492, 1497, 1497]"]
  by (simp add: is_casing_of_def ascii_upper_def ascii_def identity_table_def long_s_table_def
        toUpperCase_def upper_cp_def code_units_def)

section \<open>The client module\<close>

text \<open>
  Claim C10 (startup precondition). With \<open>API_KEY\<close> unset, loading the client module
  throws, and so does the program, whatever events would follow. A client, and with it a
  running component, exists only when the key is set and not empty.
\<close>

theorem api_key_guard:
  "load_geminiService None = Inl (Error (ascii ''API_KEY environment variable is not set''))
   \<and> run_program tab None es = Inl (Error (ascii ''API_KEY environment variable is not set''))
   \<and> (load_geminiService env = Inr ai \<longrightarrow> (\<exists>k. env = Some k \<and> k \<noteq> [] \<and> apiKey ai = k))
   \<and> (run_program tab env es = Inr result \<longrightarrow>
        (\<exists>k. env = Some k \<and> k \<noteq> [] \<and> result = run tab \<lparr>apiKey = k\<rparr> initial_state es))"
  by (auto simp: load_geminiService_def run_program_def split: option.splits if_splits)

theorem api_key_guard_witness:
  "load_geminiService (Some (ascii ''key'')) = Inr test_client
   \<and> run_program identity_table (Some (ascii ''key'')) [] = Inr (Some initial_state)
   \<and> run_program identity_table None [ClickToggle True] =
       Inl (Error (ascii ''API_KEY environment variable is not set''))
   \<and> run_program identity_table (Some []) [ClickToggle True] =
       Inl (Error (ascii ''API_KEY environment variable is not set''))"
  using api_key_guard [of identity_table "[ClickToggle True]" "Some (ascii ''key'')" "test_client"]
    api_key_guard [of identity_table "[]" "Some (ascii ''key'')" _ "Some initial_state"]
  by (simp add: load_geminiService_def run_program_def ascii_def test_client_def)

section \<open>The invariant of the controller\<close>

lemma timer_inv_interval_effect: "timer_inv (interval_effect s)"
  by (simp add: timer_inv_def interval_effect_def)

lemma timer_inv_rerender:
  assumes "timer_inv prev" and "timer_rel prev s"
  shows "timer_inv (rerender prev s)"
proof (cases "interval_effect_deps s = interval_effect_deps prev")
  case True
  then have "timer_inv s"
    using assms by (auto simp: timer_inv_def timer_rel_def interval_effect_deps_def split: option.splits)
  with True show ?thesis by (simp add: rerender_def)
next
  case False
  then show ?thesis by (simp add: rerender_def timer_inv_interval_effect)
qed

lemma cycle_inv_rerender [simp]: "cycle_inv (rerender prev s) = cycle_inv s"
  by (simp add: cycle_inv_def rerender_def interval_effect_def)

lemma inv_rerender:
  "timer_inv prev \<Longrightarrow> timer_rel prev s \<Longrightarrow> cycle_inv s \<Longrightarrow> app_inv (rerender prev s)"
  by (simp add: app_inv_def timer_inv_rerender)

lemma handleToggleCamera_inv:
  "cycle_inv s \<Longrightarrow> timer_rel s (handleToggleCamera c s) \<and> cycle_inv (handleToggleCamera c s)"
  by (auto simp: handleToggleCamera_def stopCamera_def Let_def timer_rel_def cycle_inv_def)

lemma handleToggleCamera_resume_inv:
  "cycle_inv s \<Longrightarrow> timer_rel s (handleToggleCamera_resume g (s\<lparr>pendingCamera := n\<rparr>))
     \<and> cycle_inv (handleToggleCamera_resume g (s\<lparr>pendingCamera := n\<rparr>))"
  by (auto simp: handleToggleCamera_resume_def timer_rel_def cycle_inv_def)

lemma runAnalysis_inv:
  assumes "timer_inv s" "cycle_inv s" "analysisIntervalRef s = Some tm"
  shows "timer_rel s (runAnalysis tm r c (s\<lparr>analysisIntervalRef := Some (tm\<lparr>due := d\<rparr>)\<rparr>))
     \<and> cycle_inv (runAnalysis tm r c (s\<lparr>analysisIntervalRef := Some (tm\<lparr>due := d\<rparr>)\<rparr>))"
  using assms
  by (auto simp: runAnalysis_def Let_def timer_rel_def cycle_inv_def timer_inv_def)

lemma runAnalysis_analyzed_inv:
  assumes "cycle_inv s" "k < length (cycles s)" "cycles s ! k = AwaitAnalysis seen"
  shows "timer_rel s (runAnalysis_analyzed tab k seen out s)
     \<and> cycle_inv (runAnalysis_analyzed tab k seen out s)"
proof -
  from assms have c: "cycles s = [AwaitAnalysis False]" "k = 0" "\<not> seen"
    by (auto simp: cycle_inv_def length_Suc_conv)
  from assms(1) c have f: "isLoading s" "\<not> isSpeaking s" "\<not> isOnCooldown s" "cooldownTimeouts s = []"
    by (auto simp: cycle_inv_def)
  show ?thesis
    by (simp add: runAnalysis_analyzed_def Let_def timer_rel_def cycle_inv_def drop_nth_def c f
             split: sum.splits detection.splits)
qed

lemma runAnalysis_finally_inv:
  assumes "cycle_inv s" "k < length (cycles s)" "\<forall>seen. cycles s ! k \<noteq> AwaitAnalysis seen"
  shows "timer_rel s (runAnalysis_finally k s) \<and> cycle_inv (runAnalysis_finally k s)"
proof -
  from assms have c: "length (cycles s) = 1" "k = 0" "isOnCooldown s" "cooldownTimeouts s = []"
    by (auto simp: cycle_inv_def)
  show ?thesis using assms(1) c
    by (auto simp: runAnalysis_finally_def timer_rel_def cycle_inv_def drop_nth_def length_Suc_conv)
qed

lemma playAudio_frame:
  "playAudio a s = (b, s1) \<Longrightarrow> s1 = s \<or> s1 = s\<lparr>error := Some PlaybackFailedMsg\<rparr>"
  by (auto simp: playAudio_def split: if_splits option.splits sum.splits)

lemma cycle_inv_error [simp]: "cycle_inv (s\<lparr>error := x\<rparr>) = cycle_inv s"
  by (simp add: cycle_inv_def)

lemma runAnalysis_finally_error:
  "runAnalysis_finally k (s\<lparr>error := x\<rparr>) = (runAnalysis_finally k s)\<lparr>error := x\<rparr>"
  by (simp add: runAnalysis_finally_def)

lemma timer_rel_error [simp]: "timer_rel prev (s\<lparr>error := x\<rparr>) = timer_rel prev s"
  by (simp add: timer_rel_def)

lemma runAnalysis_spoken_inv:
  assumes "cycle_inv s" "k < length (cycles s)" "cycles s ! k = AwaitSpeech t"
  shows "timer_rel s (runAnalysis_spoken k out s) \<and> cycle_inv (runAnalysis_spoken k out s)"
proof (cases out)
  case (Inl e)
  then show ?thesis using runAnalysis_finally_inv [of s k] assms by (simp add: runAnalysis_spoken_def)
next
  case (Inr a)
  obtain b s1 where p: "playAudio a s = (b, s1)" by (cases "playAudio a s")
  from assms have c: "cycles s = [AwaitSpeech t]" "k = 0"
    by (auto simp: cycle_inv_def length_Suc_conv)
  from playAudio_frame [OF p] show ?thesis
  proof
    assume "s1 = s"
    then show ?thesis using Inr p assms runAnalysis_finally_inv [of s k]
      by (cases b) (auto simp: runAnalysis_spoken_def timer_rel_def cycle_inv_def c)
  next
    assume "s1 = s\<lparr>error := Some PlaybackFailedMsg\<rparr>"
    then show ?thesis using Inr p assms runAnalysis_finally_inv [of s k]
      by (cases b) (auto simp: runAnalysis_spoken_def runAnalysis_finally_error timer_rel_def cycle_inv_def c)
  qed
qed

lemma cooldown_timeout_inv:
  assumes "cycle_inv s" "j < length (cooldownTimeouts s)"
  shows "timer_rel s (cooldown_timeout j s) \<and> cycle_inv (cooldown_timeout j s)"
  using assms
  by (auto simp: cooldown_timeout_def timer_rel_def cycle_inv_def drop_nth_def split: if_splits)

lemma inv_step:
  assumes i: "app_inv s" and st: "step tab ai s e = Some s'"
  shows "app_inv s'"
proof -
  from i have ti: "timer_inv s" and ci: "cycle_inv s" by (simp_all add: app_inv_def)
  show ?thesis
  proof (cases e)
    case (Advance d)
    with st have "s' = s\<lparr>now := now s + d\<rparr>" by simp
    moreover have "timer_inv (s\<lparr>now := now s + d\<rparr>) = timer_inv s"
      by (simp add: timer_inv_def split: option.split)
    moreover have "cycle_inv (s\<lparr>now := now s + d\<rparr>) = cycle_inv s"
      by (simp add: cycle_inv_def)
    ultimately show ?thesis using ti ci by (simp add: app_inv_def)
  next
    case (ClickToggle c)
    with st have "s' = rerender s (handleToggleCamera c s)" by simp
    then show ?thesis using ti ci handleToggleCamera_inv [of s c] by (simp add: inv_rerender)
  next
    case (CameraAnswer g)
    with st have "s' = rerender s (handleToggleCamera_resume g (s\<lparr>pendingCamera := pendingCamera s - 1\<rparr>))"
      by (simp split: if_splits)
    then show ?thesis
      using ti ci handleToggleCamera_resume_inv [of s g "pendingCamera s - 1"] by (simp add: inv_rerender)
  next
    case (Tick r c)
    with st obtain tm where tm: "analysisIntervalRef s = Some tm"
      and s': "s' = rerender s (runAnalysis tm r c (s\<lparr>analysisIntervalRef := Some (tm\<lparr>due := now s + period tm\<rparr>)\<rparr>))"
      by (auto split: option.splits if_splits)
    show ?thesis unfolding s'
      using ti ci runAnalysis_inv [OF ti ci tm, of r c "now s + period tm"] by (simp add: inv_rerender)
  next
    case (AnalysisDone k r)
    with st obtain seen where k: "k < length (cycles s)" "cycles s ! k = AwaitAnalysis seen"
      and s': "s' = rerender s (runAnalysis_analyzed tab k seen (analyzeFrame ai r) s)"
      by (auto split: if_splits cycle.splits)
    show ?thesis unfolding s'
      using ti runAnalysis_analyzed_inv [OF ci k, of tab "analyzeFrame ai r"] by (simp add: inv_rerender)
  next
    case (SpeechDone k r)
    with st obtain t where k: "k < length (cycles s)" "cycles s ! k = AwaitSpeech t"
      and s': "s' = rerender s (runAnalysis_spoken k (textToSpeech ai r) s)"
      by (auto split: if_splits cycle.splits)
    show ?thesis unfolding s'
      using ti runAnalysis_spoken_inv [OF ci k, of "textToSpeech ai r"] by (simp add: inv_rerender)
  next
    case (PlaybackEnded k)
    with st have k: "k < length (cycles s)" "cycles s ! k = AwaitPlayback"
      and s': "s' = rerender s (runAnalysis_finally k s)"
      by (auto split: if_splits cycle.splits)
    show ?thesis unfolding s'
      using ti k runAnalysis_finally_inv [OF ci k(1)] by (simp add: inv_rerender)
  next
    case (CooldownExpired j)
    with st have j: "j < length (cooldownTimeouts s)" and s': "s' = rerender s (cooldown_timeout j s)"
      by (auto split: if_splits)
    show ?thesis unfolding s'
      using ti cooldown_timeout_inv [OF ci j] by (simp add: inv_rerender)
  next
    case (SliderChange n)
    with st have s': "s' = rerender s (s\<lparr>analysisInterval := n\<rparr>)"
      by (auto simp: setAnalysisInterval_def split: if_splits)
    have "timer_rel s (s\<lparr>analysisInterval := n\<rparr>)" "cycle_inv (s\<lparr>analysisInterval := n\<rparr>)"
      using ci by (auto simp: timer_rel_def cycle_inv_def)
    then show ?thesis unfolding s' using ti by (simp add: inv_rerender)
  qed
qed

lemma inv_initial: "app_inv initial_state"
  by (simp add: app_inv_def timer_inv_def cycle_inv_def initial_state_def)

lemma inv_run: "app_inv s \<Longrightarrow> run tab ai s es = Some s' \<Longrightarrow> app_inv s'"
  by (induction es arbitrary: s) (auto split: option.splits dest: inv_step)

section \<open>Steps of the controller\<close>

lemma reachable_inv: "run tab ai initial_state es = Some s \<Longrightarrow> app_inv s"
  using inv_run [OF inv_initial] .

lemma rerender_same:
  "interval_effect_deps s = interval_effect_deps prev \<Longrightarrow> rerender prev s = s"
  by (simp add: rerender_def)

lemma cycle_inv_length: "cycle_inv s \<Longrightarrow> length (cycles s) \<le> 1"
  by (auto simp: cycle_inv_def)

lemma rerender_fields [simp]:
  "isCameraOn (rerender prev s) = isCameraOn s"
  "isLoading (rerender prev s) = isLoading s"
  "isSpeaking (rerender prev s) = isSpeaking s"
  "isOnCooldown (rerender prev s) = isOnCooldown s"
  "analysisResult (rerender prev s) = analysisResult s"
  "error (rerender prev s) = error s"
  "analysisInterval (rerender prev s) = analysisInterval s"
  "now (rerender prev s) = now s"
  "cycles (rerender prev s) = cycles s"
  "cooldownTimeouts (rerender prev s) = cooldownTimeouts s"
  "frames (rerender prev s) = frames s"
  by (simp_all add: rerender_def interval_effect_def)

lemma inv_timer_flags:
  assumes "app_inv s" "isCameraOn s"
  shows "\<exists>tm. analysisIntervalRef s = Some tm \<and> period tm = analysisInterval s \<and>
     seen_isLoading tm = isLoading s \<and> seen_isSpeaking tm = isSpeaking s \<and>
     seen_isOnCooldown tm = isOnCooldown s"
  using assms by (auto simp: app_inv_def timer_inv_def split: option.splits)

lemma inv_timer_off: "app_inv s \<Longrightarrow> \<not> isCameraOn s \<Longrightarrow> analysisIntervalRef s = None"
  by (auto simp: app_inv_def timer_inv_def split: option.splits)

lemma rerender_due:
  assumes "isCameraOn s" "interval_effect_deps s \<noteq> interval_effect_deps prev"
  shows "\<exists>tm. analysisIntervalRef (rerender prev s) = Some tm \<and> due tm = now s + analysisInterval s"
  using assms by (simp add: rerender_def interval_effect_def)

lemma rerender_changed:
  "interval_effect_deps s \<noteq> interval_effect_deps prev \<Longrightarrow> rerender prev s = interval_effect s"
  by (simp add: rerender_def)

lemma runAnalysis_finally_cooldown:
  assumes "cycle_inv s" "k < length (cycles s)" "\<forall>seen. cycles s ! k \<noteq> AwaitAnalysis seen"
  shows "runAnalysis_finally k s =
     s\<lparr>isSpeaking := False, analysisResult := CooldownMsg,
       cooldownTimeouts := [now s + COOLDOWN_DURATION_MS], cycles := []\<rparr>
     \<and> \<not> isLoading s \<and> isOnCooldown s"
proof -
  from assms have c: "length (cycles s) = 1" "k = 0" "isOnCooldown s" "cooldownTimeouts s = []"
    "\<not> isLoading s"
    by (auto simp: cycle_inv_def)
  then show ?thesis
    by (auto simp: runAnalysis_finally_def drop_nth_def length_Suc_conv)
qed

lemma speech_step:
  assumes "cycle_inv s" "k < length (cycles s)" "cycles s ! k = AwaitSpeech text"
  shows "\<exists>s'. step tab ai s (SpeechDone k response) = Some s' \<and> now s' = now s \<and> frames s' = frames s \<and>
         isCameraOn s' = isCameraOn s \<and>
         ((\<not> isLoading s' \<and> \<not> isSpeaking s' \<and> isOnCooldown s' \<and> cycles s' = [] \<and>
           cooldownTimeouts s' = [now s + COOLDOWN_DURATION_MS])
          \<or> ((\<exists>binaryString. response = TtsAudio (Some binaryString)) \<and>
              cycles s' = [AwaitPlayback] \<and> isSpeaking s' \<and> isOnCooldown s'))"
proof -
  from assms(3) have na: "\<forall>seen. cycles s ! k \<noteq> AwaitAnalysis seen" by simp
  note fin = runAnalysis_finally_cooldown [OF assms(1,2) na]
  from assms have c: "cycles s = [AwaitSpeech text]" "k = 0" "isSpeaking s" "isOnCooldown s"
    by (auto simp: cycle_inv_def length_Suc_conv)
  define h where "h = runAnalysis_spoken k (textToSpeech ai response) s"
  have st: "step tab ai s (SpeechDone k response) = Some (rerender s h)"
    using assms(2,3) by (simp add: h_def)
  have "now h = now s \<and> frames h = frames s \<and> isCameraOn h = isCameraOn s \<and>
         ((\<not> isLoading h \<and> \<not> isSpeaking h \<and> isOnCooldown h \<and> cycles h = [] \<and>
           cooldownTimeouts h = [now s + COOLDOWN_DURATION_MS])
          \<or> ((\<exists>binaryString. response = TtsAudio (Some binaryString)) \<and>
              cycles h = [AwaitPlayback] \<and> isSpeaking h \<and> isOnCooldown h))"
  proof (cases "textToSpeech ai response")
    case (Inl e)
    then show ?thesis using fin by (simp add: h_def runAnalysis_spoken_def)
  next
    case (Inr a)
    then have r: "response = TtsAudio a" by (auto simp: textToSpeech_def split: tts_response.splits)
    obtain b s1 where p: "playAudio a s = (b, s1)" by (cases "playAudio a s")
    from playAudio_frame [OF p] have s1: "s1 = s \<or> s1 = s\<lparr>error := Some PlaybackFailedMsg\<rparr>" .
    show ?thesis
    proof (cases b)
      case True
      with p have "\<exists>binaryString. a = Some binaryString"
        by (auto simp: playAudio_def split: if_splits option.splits sum.splits)
      then show ?thesis using True p Inr r s1 c
        by (auto simp: h_def runAnalysis_spoken_def)
    next
      case False
      then show ?thesis using p Inr s1 fin
        by (auto simp: h_def runAnalysis_spoken_def runAnalysis_finally_error)
    qed
  qed
  then show ?thesis using st by simp
qed

lemma detected_step:
  assumes ci: "cycle_inv s" and st: "step tab ai s (AnalysisDone k (ApiText raw)) = Some s'"
    and d: "classify tab (js_trim raw) = Detected greeting"
  shows "\<not> isLoading s' \<and> isSpeaking s' \<and> isOnCooldown s' \<and> cycles s' = [AwaitSpeech greeting] \<and>
     cooldownTimeouts s' = [] \<and> frames s' = frames s \<and> now s' = now s \<and>
     isCameraOn s' = isCameraOn s \<and> analysisResult s' = ResultMsg greeting"
proof -
  from st obtain seen where k: "k < length (cycles s)" "cycles s ! k = AwaitAnalysis seen"
    and s': "s' = rerender s (runAnalysis_analyzed tab k seen (analyzeFrame ai (ApiText raw)) s)"
    by (auto split: if_splits cycle.splits)
  from ci k have c: "cycles s = [AwaitAnalysis False]" "k = 0" "cooldownTimeouts s = []"
    by (auto simp: cycle_inv_def length_Suc_conv)
  show ?thesis
    by (simp add: s' runAnalysis_analyzed_def analyzeFrame_def d c)
qed

lemma now_mono_step: "step tab ai s e = Some s' \<Longrightarrow> now s \<le> now s'"
  by (cases e) (auto simp: handleToggleCamera_def stopCamera_def handleToggleCamera_resume_def
      runAnalysis_def runAnalysis_analyzed_def runAnalysis_spoken_def runAnalysis_finally_def
      cooldown_timeout_def setAnalysisInterval_def Let_def
      dest!: playAudio_frame
      split: if_splits option.splits cycle.splits sum.splits detection.splits prod.splits bool.splits)

lemma now_mono_run: "run tab ai s es = Some s' \<Longrightarrow> now s \<le> now s'"
proof (induction es arbitrary: s)
  case Nil
  then show ?case by simp
next
  case (Cons e es)
  then obtain s1 where "step tab ai s e = Some s1" "run tab ai s1 es = Some s'"
    by (auto split: option.splits)
  then show ?case using now_mono_step [of tab ai s e s1] Cons.IH [of s1] by simp
qed

lemma cooling_step:
  assumes c: "cooling T s" and st: "step tab ai s e = Some s'" and t: "now s' < T"
  shows "cooling T s' \<and> frames s' = frames s"
proof -
  from c have i: "app_inv s" and cd: "isOnCooldown s" by (simp_all add: cooling_def)
  from i have ti: "timer_inv s" and ci: "cycle_inv s" by (simp_all add: app_inv_def)
  from inv_step [OF i st] have i': "app_inv s'" .
  from ci cd have nl: "\<not> isLoading s" "\<forall>k seen. k < length (cycles s) \<longrightarrow> cycles s ! k \<noteq> AwaitAnalysis seen"
    by (auto simp: cycle_inv_def length_Suc_conv)
  have keep: "cooling T s' \<and> frames s' = frames s"
    if "isOnCooldown s'" "cycles s' = cycles s" "cooldownTimeouts s' = cooldownTimeouts s"
       "now s \<le> now s'" "frames s' = frames s"
    using that c i' by (auto simp: cooling_def)
  show ?thesis
  proof (cases e)
    case (Advance d)
    with st have "s' = s\<lparr>now := now s + d\<rparr>" by simp
    then show ?thesis using cd by (intro keep) simp_all
  next
    case (ClickToggle x)
    with st have "s' = rerender s (handleToggleCamera x s)" by simp
    then show ?thesis using cd
      by (intro keep) (simp_all add: handleToggleCamera_def stopCamera_def Let_def)
  next
    case (CameraAnswer g)
    with st have "s' = rerender s (handleToggleCamera_resume g (s\<lparr>pendingCamera := pendingCamera s - 1\<rparr>))"
      by (simp split: if_splits)
    then show ?thesis using cd
      by (intro keep) (simp_all add: handleToggleCamera_resume_def)
  next
    case (Tick r x)
    with st obtain tm where tm: "analysisIntervalRef s = Some tm"
      and s': "s' = rerender s (runAnalysis tm r x (s\<lparr>analysisIntervalRef := Some (tm\<lparr>due := now s + period tm\<rparr>)\<rparr>))"
      by (auto split: option.splits if_splits)
    from ti tm cd have "seen_isOnCooldown tm" by (simp add: timer_inv_def)
    then have ra: "runAnalysis tm r x (s\<lparr>analysisIntervalRef := Some (tm\<lparr>due := now s + period tm\<rparr>)\<rparr>)
        = s\<lparr>analysisIntervalRef := Some (tm\<lparr>due := now s + period tm\<rparr>)\<rparr>"
      by (simp add: runAnalysis_def)
    show ?thesis using cd by (intro keep) (simp_all add: s' ra)
  next
    case (AnalysisDone k r)
    with st nl(2) show ?thesis by (auto split: if_splits cycle.splits)
  next
    case (SpeechDone k r)
    with st obtain greeting where k: "k < length (cycles s)" and sp: "cycles s ! k = AwaitSpeech greeting"
      by (auto split: if_splits cycle.splits)
    from c k have T: "T \<le> now s + COOLDOWN_DURATION_MS"
      by (cases "cycles s = []") (simp_all add: cooling_def)
    from speech_step [OF ci k sp, of tab ai r] st SpeechDone
    have "(isOnCooldown s' \<and> cycles s' = [] \<and> cooldownTimeouts s' = [now s + COOLDOWN_DURATION_MS]
            \<or> cycles s' = [AwaitPlayback] \<and> isOnCooldown s') \<and> now s' = now s \<and> frames s' = frames s"
      by auto
    then show ?thesis using i' T by (auto simp: cooling_def)
  next
    case (PlaybackEnded k)
    with st have k: "k < length (cycles s)" and pb: "cycles s ! k = AwaitPlayback"
      and s': "s' = rerender s (runAnalysis_finally k s)"
      by (auto split: if_splits cycle.splits)
    from c k have T: "T \<le> now s + COOLDOWN_DURATION_MS"
      by (cases "cycles s = []") (simp_all add: cooling_def)
    from pb have na: "\<forall>seen. cycles s ! k \<noteq> AwaitAnalysis seen" by simp
    from runAnalysis_finally_cooldown [OF ci k na] cd
    have "isOnCooldown s'" "cycles s' = []" "cooldownTimeouts s' = [now s + COOLDOWN_DURATION_MS]"
      "frames s' = frames s"
      by (simp_all add: s')
    then show ?thesis using i' T by (simp add: cooling_def)
  next
    case (CooldownExpired j)
    with st have j: "j < length (cooldownTimeouts s)" "cooldownTimeouts s ! j \<le> now s"
      and s': "s' = rerender s (cooldown_timeout j s)"
      by (auto split: if_splits)
    from j ci have "cycles s = []" by (auto simp: cycle_inv_def)
    with c j have "T \<le> now s" by (auto simp: cooling_def)
    moreover have "now s' = now s" by (simp add: s' cooldown_timeout_def)
    ultimately show ?thesis using t by simp
  next
    case (SliderChange n)
    with st have "s' = rerender s (s\<lparr>analysisInterval := n\<rparr>)"
      by (auto simp: setAnalysisInterval_def split: if_splits)
    then show ?thesis using cd by (intro keep) simp_all
  qed
qed

lemma cooling_run:
  "cooling T s \<Longrightarrow> run tab ai s es = Some s' \<Longrightarrow> now s' < T \<Longrightarrow> cooling T s' \<and> frames s' = frames s"
proof (induction es arbitrary: s)
  case Nil
  then show ?case by simp
next
  case (Cons e es)
  then obtain s1 where s1: "step tab ai s e = Some s1" "run tab ai s1 es = Some s'"
    by (auto split: option.splits)
  from now_mono_run [OF s1(2)] Cons.prems(3) have "now s1 < T" by simp
  from cooling_step [OF Cons.prems(1) s1(1) this] Cons.IH [OF _ s1(2) Cons.prems(3)]
  show ?case by simp
qed

section \<open>Concrete runs\<close>

lemmas model_defs = initial_state_def rerender_def interval_effect_def interval_effect_deps_def
  handleToggleCamera_def handleToggleCamera_resume_def stopCamera_def runAnalysis_def
  runAnalysis_analyzed_def runAnalysis_spoken_def runAnalysis_finally_def playAudio_def
  analyzeFrame_def textToSpeech_def classify_def toUpperCase_def upper_cp_def code_units_def
  ascii_def js_trim_def is_js_whitespace_def drop_nth_def COOLDOWN_DURATION_MS_def
  DEFAULT_ANALYSIS_INTERVAL_MS_def decodeAudioData_eq decode_def int16_at_def
  cooldown_timeout_def setAnalysisInterval_def slider_value_def Let_def identity_table_def
  test_client_def camera_trace_def analyzing_state_def speaking_state_def stopped_state_def
  cooldown_state_def playing_stopped_state_def failed_state_def

lemma run_append:
  "run tab ai s (es @ es') = (case run tab ai s es of None \<Rightarrow> None | Some s' \<Rightarrow> run tab ai s' es')"
  by (induction es arbitrary: s) (auto split: option.splits)

lemma run_snoc:
  "run tab ai s es = Some s1 \<Longrightarrow> step tab ai s1 e = Some s2 \<Longrightarrow> run tab ai s (es @ [e]) = Some s2"
  by (simp add: run_append)

lemma run_app:
  "run tab ai s es = Some s1 \<Longrightarrow> run tab ai s1 es' = Some s2 \<Longrightarrow> run tab ai s (es @ es') = Some s2"
  by (simp add: run_append)

lemma run_camera_trace:
  "run identity_table test_client initial_state camera_trace = Some analyzing_state"
  by (simp add: model_defs)

lemma step_detected:
  "step identity_table test_client analyzing_state (AnalysisDone 0 (ApiText (ascii '' hi ''))) =
     Some speaking_state"
  by (simp add: model_defs)

lemma step_stop:
  "step identity_table test_client analyzing_state (ClickToggle True) = Some stopped_state"
  by (simp add: model_defs)

lemma step_failed:
  "step identity_table test_client analyzing_state (AnalysisDone 0 (ApiFailure None)) =
     Some failed_state"
  by (simp add: model_defs)

lemma run_retry:
  "run identity_table test_client failed_state [Advance 10000, Tick True True] =
     Some (analyzing_state\<lparr>now := 20000, frames := 2,
             analysisIntervalRef :=
               Some \<lparr>due = 30000, period = 10000, seen_isLoading = True,
                     seen_isSpeaking = False, seen_isOnCooldown = False\<rparr>\<rparr>)"
  by (simp add: model_defs)

lemma step_stopped_detected:
  "step identity_table test_client stopped_state (AnalysisDone 0 (ApiText (ascii ''hi''))) =
     Some (stopped_state
             \<lparr>isLoading := False, isSpeaking := True, isOnCooldown := True,
              analysisResult := ResultMsg (ascii ''hi''), cycles := [AwaitSpeech (ascii ''hi'')]\<rparr>)"
  by (simp add: model_defs)

lemma step_stopped_speech_failed:
  "step identity_table test_client
     (stopped_state
        \<lparr>isLoading := False, isSpeaking := True, isOnCooldown := True,
         analysisResult := ResultMsg (ascii ''hi''), cycles := [AwaitSpeech (ascii ''hi'')]\<rparr>)
     (SpeechDone 0 TtsFailure) =
   Some (stopped_state
           \<lparr>isLoading := False, isSpeaking := False, isOnCooldown := True,
            analysisResult := CooldownMsg, cycles := [], cooldownTimeouts := [30000]\<rparr>)"
  by (simp add: model_defs)

lemma run_stopped_playing:
  "run identity_table test_client stopped_state
     [AnalysisDone 0 (ApiText (ascii ''hi'')), SpeechDone 0 (TtsAudio (Some [0, 64, 0, 128])),
      Advance 500] = Some playing_stopped_state"
  by (simp add: model_defs)

lemma step_stopped_ended:
  "step identity_table test_client playing_stopped_state (PlaybackEnded 0) =
     Some (playing_stopped_state
             \<lparr>isSpeaking := False, analysisResult := CooldownMsg, cycles := [],
              cooldownTimeouts := [30500]\<rparr>)"
  by (simp add: model_defs)

lemma step_speech_failed:
  "step identity_table test_client speaking_state (SpeechDone 0 TtsFailure) = Some cooldown_state"
  by (simp add: model_defs)

lemma run_cooldown_ticks:
  "run identity_table test_client cooldown_state [Advance 10000, Tick True True, Advance 9999] =
     Some (cooldown_state
             \<lparr>now := 29999,
              analysisIntervalRef :=
                Some \<lparr>due = 30000, period = 10000, seen_isLoading = False,
                      seen_isSpeaking = False, seen_isOnCooldown = True\<rparr>\<rparr>)"
  by (simp add: model_defs)

lemma step_cooldown_wait:
  "step identity_table test_client cooldown_state (Advance 20000) =
     Some (cooldown_state\<lparr>now := 30000\<rparr>)"
  by (simp add: model_defs)

lemma step_cooldown_expired:
  "step identity_table test_client (cooldown_state\<lparr>now := 30000\<rparr>) (CooldownExpired 0) =
     Some (cooldown_state
             \<lparr>now := 30000, isOnCooldown := False, analysisResult := ReadyMsg,
              cooldownTimeouts := [],
              analysisIntervalRef :=
                Some \<lparr>due = 40000, period = 10000, seen_isLoading = False,
                      seen_isSpeaking = False, seen_isOnCooldown = False\<rparr>\<rparr>)"
  by (simp add: model_defs)

lemma classify_hi:
  "classify identity_table (js_trim (ascii '' hi '')) = Detected (ascii ''hi'')"
  "classify identity_table (js_trim (ascii ''hi'')) = Detected (ascii ''hi'')"
  by (simp_all add: model_defs)

lemmas run_stopped = run_snoc [OF run_camera_trace step_stop]

lemmas run_speaking = run_snoc [OF run_camera_trace step_detected]

lemmas run_playing_stopped = run_app [OF run_stopped run_stopped_playing]

lemmas run_cooled = run_snoc [OF run_snoc [OF run_speaking step_speech_failed] step_cooldown_wait]

section \<open>The properties of the controller\<close>

text \<open>
  All of them are stated for the states that a run of the component reaches from its
  initial state, under any events. The model takes the render and the effects of the
  component to run to completion after each handler, before the next event.
\<close>

text \<open>
  Claim C1 (no re-entrancy). In every reachable state at most one call of \<open>runAnalysis\<close> is
  suspended. A tick that arrives while \<open>isLoading\<close>, \<open>isSpeaking\<close> or \<open>isOnCooldown\<close> holds
  captures no frame and starts no call: it changes nothing but the time at which the
  interval fires next.
\<close>

theorem no_reentrancy:
  assumes "run tab ai initial_state es = Some s"
  shows "length (cycles s) \<le> 1 \<and>
    (isLoading s \<or> isSpeaking s \<or> isOnCooldown s \<longrightarrow>
     step tab ai s (Tick refs_present context_ok) = Some s' \<longrightarrow>
       frames s' = frames s \<and> cycles s' = cycles s \<and>
       (\<exists>tm. analysisIntervalRef s = Some tm \<and>
             s' = s\<lparr>analysisIntervalRef := Some (tm\<lparr>due := now s + period tm\<rparr>)\<rparr>))"
proof (intro conjI impI)
  from assms have i: "timer_inv s" "cycle_inv s" using reachable_inv by (auto simp: app_inv_def)
  show "length (cycles s) \<le> 1" using i(2) by (rule cycle_inv_length)
  assume busy: "isLoading s \<or> isSpeaking s \<or> isOnCooldown s"
    and st: "step tab ai s (Tick refs_present context_ok) = Some s'"
  from st obtain tm where tm: "analysisIntervalRef s = Some tm"
    and s': "s' = rerender s (runAnalysis tm refs_present context_ok
                (s\<lparr>analysisIntervalRef := Some (tm\<lparr>due := now s + period tm\<rparr>)\<rparr>))"
    by (auto split: option.splits if_splits)
  from i(1) tm busy have seen: "seen_isLoading tm \<or> seen_isSpeaking tm \<or> seen_isOnCooldown tm"
    by (simp add: timer_inv_def)
  then have r: "runAnalysis tm refs_present context_ok
        (s\<lparr>analysisIntervalRef := Some (tm\<lparr>due := now s + period tm\<rparr>)\<rparr>)
      = s\<lparr>analysisIntervalRef := Some (tm\<lparr>due := now s + period tm\<rparr>)\<rparr>"
    by (simp add: runAnalysis_def)
  have s'': "s' = s\<lparr>analysisIntervalRef := Some (tm\<lparr>due := now s + period tm\<rparr>)\<rparr>"
    unfolding s' r by (rule rerender_same) (simp add: interval_effect_deps_def)
  then show "frames s' = frames s" "cycles s' = cycles s" by simp_all
  show "\<exists>tm. analysisIntervalRef s = Some tm \<and>
             s' = s\<lparr>analysisIntervalRef := Some (tm\<lparr>due := now s + period tm\<rparr>)\<rparr>"
    using tm s'' by blast
qed

theorem no_reentrancy_witness:
  "run identity_table test_client initial_state (camera_trace @ [Advance 10000]) =
     Some (analyzing_state\<lparr>now := 20000\<rparr>)
   \<and> isLoading (analyzing_state\<lparr>now := 20000\<rparr>)
   \<and> step identity_table test_client (analyzing_state\<lparr>now := 20000\<rparr>) (Tick True True) =
       Some (analyzing_state
               \<lparr>now := 20000,
                analysisIntervalRef :=
                  Some \<lparr>due = 30000, period = 10000, seen_isLoading = True,
                        seen_isSpeaking = False, seen_isOnCooldown = False\<rparr>\<rparr>)
   \<and> frames (analyzing_state
               \<lparr>now := 20000,
                analysisIntervalRef :=
                  Some \<lparr>due = 30000, period = 10000, seen_isLoading = True,
                        seen_isSpeaking = False, seen_isOnCooldown = False\<rparr>\<rparr>)
       = frames (analyzing_state\<lparr>now := 20000\<rparr>)
   \<and> length (cycles (analyzing_state\<lparr>now := 20000\<rparr>)) \<le> 1"
proof -
  have a: "step identity_table test_client analyzing_state (Advance 10000) =
     Some (analyzing_state\<lparr>now := 20000\<rparr>)"
    by (simp add: analyzing_state_def)
  note r = run_snoc [OF run_camera_trace a]
  have b: "isLoading (analyzing_state\<lparr>now := 20000\<rparr>)" by (simp add: analyzing_state_def)
  have st: "step identity_table test_client (analyzing_state\<lparr>now := 20000\<rparr>) (Tick True True) =
       Some (analyzing_state
               \<lparr>now := 20000,
                analysisIntervalRef :=
                  Some \<lparr>due = 30000, period = 10000, seen_isLoading = True,
                        seen_isSpeaking = False, seen_isOnCooldown = False\<rparr>\<rparr>)"
    by (simp add: model_defs)
  note t = no_reentrancy [OF r, of True True]
  note f = t [THEN conjunct2, rule_format, OF disjI1, OF b st, THEN conjunct1]
  show ?thesis using r b st f t [THEN conjunct1] by - (intro conjI, assumption+)
qed

text \<open>
  Claim C2 (discard after stop), as the spec states it, fails: the camera is switched off
  during the analysis, the result arrives afterwards, and the controller starts speaking and
  sets the cooldown flag; when the speech call then fails, the cooldown timeout is started.
\<close>

theorem discard_after_stop_counterexample:
  "run identity_table test_client initial_state (camera_trace @ [ClickToggle True]) =
     Some stopped_state
   \<and> \<not> isCameraOn stopped_state \<and> isLoading stopped_state \<and> \<not> isSpeaking stopped_state
   \<and> \<not> isOnCooldown stopped_state \<and> cooldownTimeouts stopped_state = []
   \<and> step identity_table test_client stopped_state (AnalysisDone 0 (ApiText (ascii ''hi''))) =
       Some (stopped_state
               \<lparr>isLoading := False, isSpeaking := True, isOnCooldown := True,
                analysisResult := ResultMsg (ascii ''hi''), cycles := [AwaitSpeech (ascii ''hi'')]\<rparr>)
   \<and> step identity_table test_client
        (stopped_state
           \<lparr>isLoading := False, isSpeaking := True, isOnCooldown := True,
            analysisResult := ResultMsg (ascii ''hi''), cycles := [AwaitSpeech (ascii ''hi'')]\<rparr>)
        (SpeechDone 0 TtsFailure) =
       Some (stopped_state
               \<lparr>isLoading := False, isSpeaking := False, isOnCooldown := True,
                analysisResult := CooldownMsg, cycles := [], cooldownTimeouts := [30000]\<rparr>)"
proof -
  have f: "\<not> isCameraOn stopped_state" "isLoading stopped_state" "\<not> isSpeaking stopped_state"
    "\<not> isOnCooldown stopped_state" "cooldownTimeouts stopped_state = []"
    by (simp_all add: stopped_state_def analyzing_state_def)
  show ?thesis
    using run_stopped f step_stopped_detected step_stopped_speech_failed
    by - (intro conjI, assumption+)
qed

text \<open>
  Claim C2, amended. Switching the camera off clears the interval and leaves the flags, the
  suspended call and the cooldown timeouts as they are. While the camera is off, a result
  that arrives from the analysis, the speech call or the playback never creates the
  interval again and captures no frame. The result itself is applied as at any other time:
  a detected result starts speaking and sets the cooldown flag, and a failed speech call or
  the end of the playback ends speaking and starts the cooldown timeout.
\<close>

theorem results_after_stop:
  assumes "run tab ai initial_state es = Some s"
  shows "(isCameraOn s \<longrightarrow>
      (\<exists>s'. step tab ai s (ClickToggle context_ok) = Some s' \<and> \<not> isCameraOn s' \<and>
         analysisIntervalRef s' = None \<and> cycles s' = cycles s \<and>
         cooldownTimeouts s' = cooldownTimeouts s \<and> isLoading s' = isLoading s \<and>
         isSpeaking s' = isSpeaking s \<and> isOnCooldown s' = isOnCooldown s))
    \<and> (\<not> isCameraOn s \<longrightarrow>
        step tab ai s (AnalysisDone k response) = Some s' \<or>
        step tab ai s (SpeechDone k speech) = Some s' \<or>
        step tab ai s (PlaybackEnded k) = Some s' \<longrightarrow>
          \<not> isCameraOn s' \<and> analysisIntervalRef s' = None \<and> frames s' = frames s)
    \<and> (step tab ai s (AnalysisDone k (ApiText raw)) = Some s' \<longrightarrow>
        classify tab (js_trim raw) = Detected greeting \<longrightarrow>
          \<not> isLoading s' \<and> isSpeaking s' \<and> isOnCooldown s' \<and> cycles s' = [AwaitSpeech greeting])
    \<and> (step tab ai s (SpeechDone k TtsFailure) = Some s' \<longrightarrow>
          \<not> isSpeaking s' \<and> isOnCooldown s' \<and> cycles s' = [] \<and>
          cooldownTimeouts s' = [now s + COOLDOWN_DURATION_MS])
    \<and> (step tab ai s (PlaybackEnded k) = Some s' \<longrightarrow>
          \<not> isSpeaking s' \<and> isOnCooldown s' \<and> cycles s' = [] \<and>
          cooldownTimeouts s' = [now s + COOLDOWN_DURATION_MS])"
proof (intro conjI impI)
  from assms have i: "app_inv s" by (rule reachable_inv)
  then have ci: "cycle_inv s" by (simp add: app_inv_def)
  {
    assume st: "step tab ai s (SpeechDone k TtsFailure) = Some s'"
    then obtain greeting where k: "k < length (cycles s)" "cycles s ! k = AwaitSpeech greeting"
      by (auto split: if_splits cycle.splits)
    from speech_step [OF ci k, of tab ai TtsFailure] st
    show "\<not> isSpeaking s'" "isOnCooldown s'" "cycles s' = []"
          "cooldownTimeouts s' = [now s + COOLDOWN_DURATION_MS]"
      by auto
  }
  {
    assume on: "isCameraOn s"
    have "step tab ai s (ClickToggle context_ok) = Some (rerender s (stopCamera s))"
      using on by (simp add: handleToggleCamera_def)
    moreover have "analysisIntervalRef (rerender s (stopCamera s)) = None"
      using on by (simp add: rerender_def interval_effect_def interval_effect_deps_def stopCamera_def)
    ultimately show "\<exists>s'. step tab ai s (ClickToggle context_ok) = Some s' \<and> \<not> isCameraOn s' \<and>
         analysisIntervalRef s' = None \<and> cycles s' = cycles s \<and>
         cooldownTimeouts s' = cooldownTimeouts s \<and> isLoading s' = isLoading s \<and>
         isSpeaking s' = isSpeaking s \<and> isOnCooldown s' = isOnCooldown s"
      by (simp add: stopCamera_def)
  }
  {
    assume off: "\<not> isCameraOn s"
      and st: "step tab ai s (AnalysisDone k response) = Some s' \<or>
        step tab ai s (SpeechDone k speech) = Some s' \<or>
        step tab ai s (PlaybackEnded k) = Some s'"
    from st obtain e where e: "step tab ai s e = Some s'"
      and f: "isCameraOn s' = isCameraOn s \<and> frames s' = frames s"
    proof (elim disjE)
      assume a: "step tab ai s (AnalysisDone k response) = Some s'"
      then have "isCameraOn s' = isCameraOn s \<and> frames s' = frames s"
        by (auto simp: runAnalysis_analyzed_def Let_def
            split: if_splits cycle.splits sum.splits detection.splits)
      with a show ?thesis using that by blast
    next
      assume a: "step tab ai s (SpeechDone k speech) = Some s'"
      then obtain greeting where "k < length (cycles s)" "cycles s ! k = AwaitSpeech greeting"
        by (auto split: if_splits cycle.splits)
      from speech_step [OF ci this, of tab ai speech] a
      have "isCameraOn s' = isCameraOn s \<and> frames s' = frames s" by auto
      with a show ?thesis using that by blast
    next
      assume a: "step tab ai s (PlaybackEnded k) = Some s'"
      then have "isCameraOn s' = isCameraOn s \<and> frames s' = frames s"
        by (auto simp: runAnalysis_finally_def split: if_splits cycle.splits)
      with a show ?thesis using that by blast
    qed
    from inv_step [OF i e] have "app_inv s'" .
    with f off show "\<not> isCameraOn s'" "analysisIntervalRef s' = None" "frames s' = frames s"
      using inv_timer_off [of s'] by simp_all
  }
  {
    assume "step tab ai s (AnalysisDone k (ApiText raw)) = Some s'"
      "classify tab (js_trim raw) = Detected greeting"
    from detected_step [OF ci this]
    show "\<not> isLoading s'" "isSpeaking s'" "isOnCooldown s'" "cycles s' = [AwaitSpeech greeting]"
      by simp_all
  }
  {
    assume st: "step tab ai s (PlaybackEnded k) = Some s'"
    then have k: "k < length (cycles s)" and pb: "cycles s ! k = AwaitPlayback"
      and s': "s' = rerender s (runAnalysis_finally k s)"
      by (auto split: if_splits cycle.splits)
    from pb have na: "\<forall>seen. cycles s ! k \<noteq> AwaitAnalysis seen" by simp
    from runAnalysis_finally_cooldown [OF ci k na]
    show "\<not> isSpeaking s'" "isOnCooldown s'" "cycles s' = []"
          "cooldownTimeouts s' = [now s + COOLDOWN_DURATION_MS]"
      by (simp_all add: s')
  }
qed

theorem results_after_stop_witness:
  "run identity_table test_client initial_state camera_trace = Some analyzing_state
   \<and> isCameraOn analyzing_state
   \<and> step identity_table test_client analyzing_state (ClickToggle True) = Some stopped_state
   \<and> \<not> isCameraOn stopped_state
   \<and> step identity_table test_client stopped_state (AnalysisDone 0 (ApiText (ascii ''hi''))) =
       Some (stopped_state
               \<lparr>isLoading := False, isSpeaking := True, isOnCooldown := True,
                analysisResult := ResultMsg (ascii ''hi''), cycles := [AwaitSpeech (ascii ''hi'')]\<rparr>)
   \<and> analysisIntervalRef
        (stopped_state
           \<lparr>isLoading := False, isSpeaking := True, isOnCooldown := True,
            analysisResult := ResultMsg (ascii ''hi''), cycles := [AwaitSpeech (ascii ''hi'')]\<rparr>)
       = None
   \<and> classify identity_table (js_trim (ascii ''hi'')) = Detected (ascii ''hi'')
   \<and> isSpeaking
        (stopped_state
           \<lparr>isLoading := False, isSpeaking := True, isOnCooldown := True,
            analysisResult := ResultMsg (ascii ''hi''), cycles := [AwaitSpeech (ascii ''hi'')]\<rparr>)
   \<and> step identity_table test_client
        (stopped_state
           \<lparr>isLoading := False, isSpeaking := True, isOnCooldown := True,
            analysisResult := ResultMsg (ascii ''hi''), cycles := [AwaitSpeech (ascii ''hi'')]\<rparr>)
        (SpeechDone 0 TtsFailure) =
       Some (stopped_state
               \<lparr>isLoading := False, isSpeaking := False, isOnCooldown := True,
                analysisResult := CooldownMsg, cycles := [], cooldownTimeouts := [30000]\<rparr>)
   \<and> isOnCooldown
        (stopped_state
           \<lparr>isLoading := False, isSpeaking := False, isOnCooldown := True,
            analysisResult := CooldownMsg, cycles := [], cooldownTimeouts := [30000]\<rparr>)
   \<and> step identity_table test_client playing_stopped_state (PlaybackEnded 0) =
       Some (playing_stopped_state
               \<lparr>isSpeaking := False, analysisResult := CooldownMsg, cycles := [],
                cooldownTimeouts := [30500]\<rparr>)
   \<and> cooldownTimeouts
        (playing_stopped_state
           \<lparr>isSpeaking := False, analysisResult := CooldownMsg, cycles := [],
            cooldownTimeouts := [30500]\<rparr>)
       = [now playing_stopped_state + COOLDOWN_DURATION_MS]"
proof -
  have on: "isCameraOn analyzing_state" by (simp add: analyzing_state_def)
  have off: "\<not> isCameraOn stopped_state"
    by (simp add: stopped_state_def)
  from results_after_stop [OF run_camera_trace, THEN conjunct1, rule_format, OF on, of True]
  have st: "step identity_table test_client analyzing_state (ClickToggle True) = Some stopped_state"
    using step_stop by simp
  note t = results_after_stop [OF run_stopped, of True 0 "ApiText (ascii ''hi'')" _ TtsFailure
      "ascii ''hi''" "ascii ''hi''"]
  note t2 = t [THEN conjunct2, THEN conjunct1, rule_format, OF off disjI1, OF step_stopped_detected]
  note t3 = t [THEN conjunct2, THEN conjunct2, THEN conjunct1, rule_format,
      OF step_stopped_detected classify_hi(2)]
  note u = results_after_stop [OF run_playing_stopped, of True 0 "ApiText (ascii ''hi'')" _ TtsFailure
      "ascii ''hi''" "ascii ''hi''"]
  note u5 = u [THEN conjunct2, THEN conjunct2, THEN conjunct2, THEN conjunct2, rule_format,
      OF step_stopped_ended]
  note v = results_after_stop [OF run_snoc [OF run_stopped step_stopped_detected],
      of True 0 "ApiText (ascii ''hi'')" _ TtsFailure "ascii ''hi''" "ascii ''hi''"]
  note v4 = v [THEN conjunct2, THEN conjunct2, THEN conjunct2, THEN conjunct1, rule_format,
      OF step_stopped_speech_failed]
  show ?thesis
    using run_camera_trace on st off step_stopped_detected
      t2 [THEN conjunct2, THEN conjunct1] classify_hi(2)
      t3 [THEN conjunct2, THEN conjunct1] step_stopped_speech_failed
      v4 [THEN conjunct2, THEN conjunct1] step_stopped_ended
      u5 [THEN conjunct2, THEN conjunct2, THEN conjunct2]
    by - (intro conjI, assumption+)
qed

text \<open>
  Claim C3 (cooldown monotonicity). When the analysis returns a detected result at some
  time, then in every state that any events lead to before 20000 ms have passed since,
  whatever the interval, the cooldown flag is still set and no further frame has been
  captured. When the cooldown timeout fires, no flag is set: the controller is idle.
\<close>

theorem cooldown_monotonicity:
  assumes "run tab ai initial_state es = Some s"
  shows "(step tab ai s (AnalysisDone k (ApiText raw)) = Some s1 \<longrightarrow>
          classify tab (js_trim raw) = Detected greeting \<longrightarrow>
          run tab ai s1 es' = Some s2 \<longrightarrow>
          now s2 < now s + COOLDOWN_DURATION_MS \<longrightarrow>
            frames s2 = frames s \<and> isOnCooldown s2)
    \<and> (step tab ai s (CooldownExpired j) = Some s' \<longrightarrow>
          \<not> isLoading s' \<and> \<not> isSpeaking s' \<and> \<not> isOnCooldown s' \<and> cycles s' = [] \<and>
          cooldownTimeouts s' = [])"
proof (intro conjI impI)
  from assms have i: "app_inv s" by (rule reachable_inv)
  then have ci: "cycle_inv s" by (simp add: app_inv_def)
  {
    assume st: "step tab ai s (AnalysisDone k (ApiText raw)) = Some s1"
      and d: "classify tab (js_trim raw) = Detected greeting"
      and r: "run tab ai s1 es' = Some s2"
      and t: "now s2 < now s + COOLDOWN_DURATION_MS"
    note f = detected_step [OF ci st d]
    have "cooling (now s + COOLDOWN_DURATION_MS) s1"
      using f inv_step [OF i st] by (simp add: cooling_def)
    from cooling_run [OF this r t] f
    show "frames s2 = frames s" "isOnCooldown s2" by (simp_all add: cooling_def)
  }
  {
    assume st: "step tab ai s (CooldownExpired j) = Some s'"
    then have j: "j < length (cooldownTimeouts s)" and s': "s' = rerender s (cooldown_timeout j s)"
      by (auto split: if_splits)
    from ci j have "cycles s = []" "\<not> isLoading s" "\<not> isSpeaking s" "length (cooldownTimeouts s) = 1" "j = 0"
      by (auto simp: cycle_inv_def split: if_splits)
    then show "\<not> isLoading s'" "\<not> isSpeaking s'" "\<not> isOnCooldown s'" "cycles s' = []"
          "cooldownTimeouts s' = []"
      by (auto simp: s' cooldown_timeout_def drop_nth_def length_Suc_conv)
  }
qed

theorem cooldown_monotonicity_witness:
  "run identity_table test_client initial_state camera_trace = Some analyzing_state
   \<and> step identity_table test_client analyzing_state (AnalysisDone 0 (ApiText (ascii '' hi ''))) =
       Some speaking_state
   \<and> classify identity_table (js_trim (ascii '' hi '')) = Detected (ascii ''hi'')
   \<and> run identity_table test_client speaking_state
        ([SpeechDone 0 TtsFailure] @ [Advance 10000, Tick True True, Advance 9999]) =
       Some (cooldown_state
               \<lparr>now := 29999,
                analysisIntervalRef :=
                  Some \<lparr>due = 30000, period = 10000, seen_isLoading = False,
                        seen_isSpeaking = False, seen_isOnCooldown = True\<rparr>\<rparr>)
   \<and> now (cooldown_state
               \<lparr>now := 29999,
                analysisIntervalRef :=
                  Some \<lparr>due = 30000, period = 10000, seen_isLoading = False,
                        seen_isSpeaking = False, seen_isOnCooldown = True\<rparr>\<rparr>)
       < now analyzing_state + COOLDOWN_DURATION_MS
   \<and> frames (cooldown_state
               \<lparr>now := 29999,
                analysisIntervalRef :=
                  Some \<lparr>due = 30000, period = 10000, seen_isLoading = False,
                        seen_isSpeaking = False, seen_isOnCooldown = True\<rparr>\<rparr>)
       = frames analyzing_state
   \<and> step identity_table test_client (cooldown_state\<lparr>now := 30000\<rparr>) (CooldownExpired 0) =
       Some (cooldown_state
               \<lparr>now := 30000, isOnCooldown := False, analysisResult := ReadyMsg,
                cooldownTimeouts := [],
                analysisIntervalRef :=
                  Some \<lparr>due = 40000, period = 10000, seen_isLoading = False,
                        seen_isSpeaking = False, seen_isOnCooldown = False\<rparr>\<rparr>)
   \<and> \<not> isOnCooldown
        (cooldown_state
           \<lparr>now := 30000, isOnCooldown := False, analysisResult := ReadyMsg,
            cooldownTimeouts := [],
            analysisIntervalRef :=
              Some \<lparr>due = 40000, period = 10000, seen_isLoading = False,
                    seen_isSpeaking = False, seen_isOnCooldown = False\<rparr>\<rparr>)"
proof -
  have s1: "run identity_table test_client speaking_state [SpeechDone 0 TtsFailure] = Some cooldown_state"
    using step_speech_failed by simp
  note r2 = run_app [OF s1 run_cooldown_ticks]
  have t: "now (cooldown_state
               \<lparr>now := 29999,
                analysisIntervalRef :=
                  Some \<lparr>due = 30000, period = 10000, seen_isLoading = False,
                        seen_isSpeaking = False, seen_isOnCooldown = True\<rparr>\<rparr>)
       < now analyzing_state + COOLDOWN_DURATION_MS"
    by (simp add: analyzing_state_def COOLDOWN_DURATION_MS_def)
  note c = cooldown_monotonicity [OF run_camera_trace, THEN conjunct1, rule_format,
      OF step_detected classify_hi(1) r2 t]
  note e = cooldown_monotonicity [OF run_cooled, THEN conjunct2, rule_format,
      OF step_cooldown_expired]
  show ?thesis
    using run_camera_trace step_detected classify_hi(1) r2 t c [THEN conjunct1]
      step_cooldown_expired e [THEN conjunct2, THEN conjunct2, THEN conjunct1]
    by - (intro conjI, assumption+)
qed

text \<open>
  Claim C4 (speech failures do not block). Whatever the speech call returns to a call of
  \<open>runAnalysis\<close> that waits for it, the call either ends speaking and starts the cooldown
  timeout of 20000 ms at once, with the cooldown flag set, or it has received audio that
  decodes and waits for the end of the playback; and when the playback ends, it ends
  speaking and starts the cooldown timeout in the same way.
\<close>

theorem speech_always_reaches_cooldown:
  assumes "run tab ai initial_state es = Some s" and "k < length (cycles s)"
  shows "(cycles s ! k = AwaitSpeech greeting \<longrightarrow>
      (\<exists>s'. step tab ai s (SpeechDone k response) = Some s' \<and>
         ((\<not> isLoading s' \<and> \<not> isSpeaking s' \<and> isOnCooldown s' \<and> cycles s' = [] \<and>
           cooldownTimeouts s' = [now s + COOLDOWN_DURATION_MS])
          \<or> ((\<exists>binaryString. response = TtsAudio (Some binaryString)) \<and>
              cycles s' = [AwaitPlayback] \<and> isSpeaking s' \<and> isOnCooldown s'))))
    \<and> (cycles s ! k = AwaitPlayback \<longrightarrow>
      (\<exists>s'. step tab ai s (PlaybackEnded k) = Some s' \<and>
         \<not> isLoading s' \<and> \<not> isSpeaking s' \<and> isOnCooldown s' \<and> cycles s' = [] \<and>
         cooldownTimeouts s' = [now s + COOLDOWN_DURATION_MS]))"
proof (intro conjI impI)
  from assms(1) have ci: "cycle_inv s" using reachable_inv by (auto simp: app_inv_def)
  {
    assume sp: "cycles s ! k = AwaitSpeech greeting"
    from speech_step [OF ci assms(2) sp, of tab ai response]
    show "\<exists>s'. step tab ai s (SpeechDone k response) = Some s' \<and>
         ((\<not> isLoading s' \<and> \<not> isSpeaking s' \<and> isOnCooldown s' \<and> cycles s' = [] \<and>
           cooldownTimeouts s' = [now s + COOLDOWN_DURATION_MS])
          \<or> ((\<exists>binaryString. response = TtsAudio (Some binaryString)) \<and>
              cycles s' = [AwaitPlayback] \<and> isSpeaking s' \<and> isOnCooldown s'))"
      by blast
  }
  {
    assume pb: "cycles s ! k = AwaitPlayback"
    then have na: "\<forall>seen. cycles s ! k \<noteq> AwaitAnalysis seen" by simp
    note fin = runAnalysis_finally_cooldown [OF ci assms(2) na]
    have "step tab ai s (PlaybackEnded k) = Some (rerender s (runAnalysis_finally k s))"
      using assms(2) pb by simp
    then show "\<exists>s'. step tab ai s (PlaybackEnded k) = Some s' \<and>
         \<not> isLoading s' \<and> \<not> isSpeaking s' \<and> isOnCooldown s' \<and> cycles s' = [] \<and>
         cooldownTimeouts s' = [now s + COOLDOWN_DURATION_MS]"
      using fin by simp
  }
qed

theorem speech_always_reaches_cooldown_witness:
  "run identity_table test_client initial_state
     (camera_trace @ [AnalysisDone 0 (ApiText (ascii '' hi ''))]) = Some speaking_state
   \<and> cycles speaking_state ! 0 = AwaitSpeech (ascii ''hi'')
   \<and> step identity_table test_client speaking_state (SpeechDone 0 TtsFailure) = Some cooldown_state
   \<and> \<not> isSpeaking cooldown_state \<and> isOnCooldown cooldown_state
   \<and> cooldownTimeouts cooldown_state = [30000]
   \<and> cycles playing_stopped_state ! 0 = AwaitPlayback
   \<and> step identity_table test_client playing_stopped_state (PlaybackEnded 0) =
       Some (playing_stopped_state
               \<lparr>isSpeaking := False, analysisResult := CooldownMsg, cycles := [],
                cooldownTimeouts := [30500]\<rparr>)"
proof -
  have k: "0 < length (cycles speaking_state)" "0 < length (cycles playing_stopped_state)"
    and sp: "cycles speaking_state ! 0 = AwaitSpeech (ascii ''hi'')"
    and pb: "cycles playing_stopped_state ! 0 = AwaitPlayback"
    and f: "\<not> isSpeaking cooldown_state" "isOnCooldown cooldown_state"
      "cooldownTimeouts cooldown_state = [30000]"
    by (simp_all add: speaking_state_def playing_stopped_state_def cooldown_state_def analyzing_state_def)
  from speech_always_reaches_cooldown [OF run_speaking k(1), THEN conjunct1, rule_format, OF sp,
      of TtsFailure]
  have "\<exists>s'. step identity_table test_client speaking_state (SpeechDone 0 TtsFailure) = Some s'"
    by blast
  moreover
  from speech_always_reaches_cooldown [OF run_playing_stopped k(2), THEN conjunct2, rule_format, OF pb]
  have "\<exists>s'. step identity_table test_client playing_stopped_state (PlaybackEnded 0) = Some s'"
    by blast
  ultimately show ?thesis
    using run_speaking sp step_speech_failed f pb step_stopped_ended
    by - (intro conjI, assumption+)
qed

text \<open>
  Claim C5 (analysis failure). When the analysis call of the waiting call of \<open>runAnalysis\<close>
  fails, the error is shown with its message, no flag is set and no cooldown timeout is
  pending, at the same instant. If the camera is on, the interval fires again one sampling
  interval later, and that tick captures a frame and starts a new call.
\<close>

theorem analysis_failure_returns_to_idle:
  assumes "run tab ai initial_state es = Some s"
    and "k < length (cycles s)" and "cycles s ! k = AwaitAnalysis seen"
  shows "\<exists>s'. step tab ai s (AnalysisDone k (ApiFailure m)) = Some s' \<and>
      error s' = Some (AnalysisFailedMsg
        (case m of Some message \<Rightarrow> message
         | None \<Rightarrow> ascii ''An unknown error occurred during analysis.'')) \<and>
      \<not> isLoading s' \<and> \<not> isSpeaking s' \<and> \<not> isOnCooldown s' \<and>
      cycles s' = [] \<and> cooldownTimeouts s' = [] \<and> frames s' = frames s \<and> now s' = now s \<and>
      (isCameraOn s' \<longrightarrow>
         (\<exists>s''. run tab ai s' [Advance (analysisInterval s'), Tick True True] = Some s'' \<and>
            frames s'' = Suc (frames s') \<and> isLoading s'' \<and> cycles s'' = [AwaitAnalysis False]))"
proof -
  define msg where "msg = (case m of Some message \<Rightarrow> message
         | None \<Rightarrow> ascii ''An unknown error occurred during analysis.'')"
  define h where "h = runAnalysis_analyzed tab k seen (Inl msg) s"
  define s' where "s' = rerender s h"
  from assms(1) have i: "app_inv s" by (rule reachable_inv)
  then have ci: "cycle_inv s" by (simp add: app_inv_def)
  from ci assms(2,3) have c: "cycles s = [AwaitAnalysis False]" "k = 0" "isLoading s"
    "\<not> isSpeaking s" "\<not> isOnCooldown s" "cooldownTimeouts s = []"
    by (auto simp: cycle_inv_def length_Suc_conv)
  have af: "analyzeFrame ai (ApiFailure m) = Inl msg"
    by (simp add: analyzeFrame_def msg_def split: option.splits)
  have st: "step tab ai s (AnalysisDone k (ApiFailure m)) = Some s'"
    using assms(2,3) by (simp add: s'_def h_def af)
  have h: "h = s\<lparr>isLoading := False, error := Some (AnalysisFailedMsg msg), cycles := []\<rparr>"
    by (simp add: h_def runAnalysis_analyzed_def drop_nth_def c)
  have f: "error s' = Some (AnalysisFailedMsg msg)" "\<not> isLoading s'" "\<not> isSpeaking s'"
    "\<not> isOnCooldown s'" "cycles s' = []" "cooldownTimeouts s' = []" "frames s' = frames s"
    "now s' = now s" "isCameraOn s' = isCameraOn s" "analysisInterval s' = analysisInterval s"
    by (simp_all add: s'_def h c)
  have next_tick: "\<exists>s''. run tab ai s' [Advance (analysisInterval s'), Tick True True] = Some s'' \<and>
            frames s'' = Suc (frames s') \<and> isLoading s'' \<and> cycles s'' = [AwaitAnalysis False]"
    if on: "isCameraOn s'"
  proof -
    from inv_step [OF i st] have i': "app_inv s'" .
    from inv_timer_flags [OF i' on] obtain tm where tm: "analysisIntervalRef s' = Some tm"
      "seen_isLoading tm = isLoading s'" "seen_isSpeaking tm = isSpeaking s'"
      "seen_isOnCooldown tm = isOnCooldown s'" by blast
    have "interval_effect_deps h \<noteq> interval_effect_deps s"
      by (simp add: h interval_effect_deps_def c)
    moreover have "isCameraOn h" using on by (simp add: s'_def)
    ultimately obtain tm' where "analysisIntervalRef s' = Some tm'"
      "due tm' = now h + analysisInterval h"
      unfolding s'_def using rerender_due [of h s] by blast
    with tm have d: "due tm = now s' + analysisInterval s'" by (simp add: s'_def)
    define a where "a = s'\<lparr>now := now s' + analysisInterval s'\<rparr>"
    define t where "t = runAnalysis tm True True (a\<lparr>analysisIntervalRef := Some (tm\<lparr>due := now a + period tm\<rparr>)\<rparr>)"
    have "run tab ai s' [Advance (analysisInterval s'), Tick True True] = Some (rerender a t)"
      by (simp add: tm d a_def t_def)
    moreover have "frames t = Suc (frames s')" "isLoading t" "cycles t = [AwaitAnalysis False]"
      using tm f by (simp_all add: runAnalysis_def Let_def t_def a_def)
    ultimately show ?thesis by simp
  qed
  have "error s' = Some (AnalysisFailedMsg
        (case m of Some message \<Rightarrow> message
         | None \<Rightarrow> ascii ''An unknown error occurred during analysis.''))"
    using f(1) by (simp add: msg_def)
  then show ?thesis using st f(2-8) next_tick by blast
qed

theorem analysis_failure_returns_to_idle_witness:
  "run identity_table test_client initial_state camera_trace = Some analyzing_state
   \<and> 0 < length (cycles analyzing_state)
   \<and> cycles analyzing_state ! 0 = AwaitAnalysis False
   \<and> step identity_table test_client analyzing_state (AnalysisDone 0 (ApiFailure None)) =
       Some failed_state
   \<and> \<not> isLoading failed_state \<and> \<not> isOnCooldown failed_state \<and> isCameraOn failed_state
   \<and> run identity_table test_client failed_state [Advance 10000, Tick True True] =
       Some (analyzing_state\<lparr>now := 20000, frames := 2,
               analysisIntervalRef :=
                 Some \<lparr>due = 30000, period = 10000, seen_isLoading = True,
                       seen_isSpeaking = False, seen_isOnCooldown = False\<rparr>\<rparr>)"
proof -
  have k: "0 < length (cycles analyzing_state)"
    and a: "cycles analyzing_state ! 0 = AwaitAnalysis False"
    and f: "isCameraOn failed_state"
    by (simp_all add: analyzing_state_def failed_state_def)
  from analysis_failure_returns_to_idle [OF run_camera_trace k a, of None] step_failed
  have "\<not> isLoading failed_state \<and> \<not> isOnCooldown failed_state" by auto
  then show ?thesis
    using run_camera_trace k a step_failed f run_retry by - (intro conjI, (assumption | erule conjunct1 | erule conjunct2)+)
qed

text \<open>
  Claim C8 (interval reconfiguration). While the camera is on, moving the slider to another
  value replaces the interval by one with the new period, due one new period later, and
  changes nothing else: the suspended call and the cooldown stay. While the camera is off
  the slider is disabled and there is no interval; its handler, were it run, would store
  the value and create no interval, and the interval created when the camera is next
  switched on has the stored value as its period.
\<close>

theorem interval_reconfiguration:
  assumes "run tab ai initial_state es = Some s"
  shows "(isCameraOn s \<and> slider_value n \<and> n \<noteq> analysisInterval s \<longrightarrow>
      step tab ai s (SliderChange n) =
        Some (s\<lparr>analysisInterval := n,
                analysisIntervalRef :=
                  Some \<lparr>due = now s + n, period = n, seen_isLoading = isLoading s,
                        seen_isSpeaking = isSpeaking s, seen_isOnCooldown = isOnCooldown s\<rparr>\<rparr>))
    \<and> (\<not> isCameraOn s \<longrightarrow>
      step tab ai s (SliderChange n) = None \<and> analysisIntervalRef s = None \<and>
      setAnalysisInterval n s = s\<lparr>analysisInterval := n\<rparr> \<and>
      (\<exists>s2. run tab ai (setAnalysisInterval n s) [ClickToggle True, CameraAnswer True] = Some s2 \<and>
         analysisIntervalRef s2 =
           Some \<lparr>due = now s + n, period = n, seen_isLoading = isLoading s,
                 seen_isSpeaking = isSpeaking s, seen_isOnCooldown = isOnCooldown s\<rparr>))"
proof (intro conjI impI)
  from assms have i: "app_inv s" by (rule reachable_inv)
  {
    assume a: "isCameraOn s \<and> slider_value n \<and> n \<noteq> analysisInterval s"
    then have "interval_effect_deps (s\<lparr>analysisInterval := n\<rparr>) \<noteq> interval_effect_deps s"
      by (simp add: interval_effect_deps_def)
    from rerender_changed [OF this] a
    show "step tab ai s (SliderChange n) =
        Some (s\<lparr>analysisInterval := n,
                analysisIntervalRef :=
                  Some \<lparr>due = now s + n, period = n, seen_isLoading = isLoading s,
                        seen_isSpeaking = isSpeaking s, seen_isOnCooldown = isOnCooldown s\<rparr>\<rparr>)"
      by (simp add: setAnalysisInterval_def interval_effect_def)
  }
  {
    assume off: "\<not> isCameraOn s"
    then show "step tab ai s (SliderChange n) = None" by simp
    from inv_timer_off [OF i off] show t: "analysisIntervalRef s = None" .
    have "s\<lparr>analysisInterval := n, analysisIntervalRef := None\<rparr> = s\<lparr>analysisInterval := n\<rparr>"
      using t by simp
    then show e: "setAnalysisInterval n s = s\<lparr>analysisInterval := n\<rparr>"
      using off by (simp add: setAnalysisInterval_def rerender_def interval_effect_def)
    show "\<exists>s2. run tab ai (setAnalysisInterval n s) [ClickToggle True, CameraAnswer True] = Some s2 \<and>
         analysisIntervalRef s2 =
           Some \<lparr>due = now s + n, period = n, seen_isLoading = isLoading s,
                 seen_isSpeaking = isSpeaking s, seen_isOnCooldown = isOnCooldown s\<rparr>"
      unfolding e using off
      by (simp add: rerender_def interval_effect_def interval_effect_deps_def
            handleToggleCamera_def handleToggleCamera_resume_def Let_def)
  }
qed

theorem interval_reconfiguration_witness:
  "run identity_table test_client initial_state camera_trace = Some analyzing_state
   \<and> isCameraOn analyzing_state \<and> slider_value 2000 \<and> 2000 \<noteq> analysisInterval analyzing_state
   \<and> step identity_table test_client analyzing_state (SliderChange 2000) =
       Some (analyzing_state
               \<lparr>analysisInterval := 2000,
                analysisIntervalRef :=
                  Some \<lparr>due = now analyzing_state + 2000, period = 2000,
                        seen_isLoading = isLoading analyzing_state,
                        seen_isSpeaking = isSpeaking analyzing_state,
                        seen_isOnCooldown = isOnCooldown analyzing_state\<rparr>\<rparr>)
   \<and> cycles analyzing_state = [AwaitAnalysis False]
   \<and> run identity_table test_client initial_state [] = Some initial_state
   \<and> \<not> isCameraOn initial_state
   \<and> step identity_table test_client initial_state (SliderChange 2000) = None"
proof -
  have a: "isCameraOn analyzing_state \<and> slider_value 2000 \<and> 2000 \<noteq> analysisInterval analyzing_state"
    and c: "cycles analyzing_state = [AwaitAnalysis False]"
    and off: "\<not> isCameraOn initial_state"
    by (simp_all add: analyzing_state_def slider_value_def initial_state_def)
  have r0: "run identity_table test_client initial_state [] = Some initial_state" by simp
  note t = interval_reconfiguration [OF run_camera_trace, THEN conjunct1, rule_format, OF a]
  note u = interval_reconfiguration [OF r0, THEN conjunct2, rule_format, OF off, THEN conjunct1, of 2000]
  show ?thesis
    using run_camera_trace a t c r0 off u
    by - (intro conjI, (assumption | erule conjunct1 | erule conjunct2 [THEN conjunct1] | erule conjunct2 [THEN conjunct2])+)
qed

end
